theory Spec2Isabelle
  imports Main
begin

section \<open>Values of the Go program\<close>

text \<open>
  The service runtime of \<^verbatim>\<open>runtime/services/service.go\<close>: a registry
  (\<^verbatim>\<open>Bootstrapper\<close>) filled by the user's configuration function, and
  \<^verbatim>\<open>Run\<close>, which runs the startup jobs, launches one goroutine per server and
  per job, waits for a signal and shuts everything down.

  Go error values are modelled by a datatype: the sentinel errors the program or its
  callees compare against, the two error structs of the standard library the program
  can be handed, with their fields, and any other error with its message.  The program
  passes error values to the logger and never renders them itself.
\<close>

datatype error =
    ErrServerClosed     \<comment> \<open>\<^verbatim>\<open>http.ErrServerClosed\<close>\<close>
  | Canceled            \<comment> \<open>\<^verbatim>\<open>context.Canceled\<close>: what a cancelled context reports\<close>
  | DeadlineExceeded    \<comment> \<open>\<^verbatim>\<open>context.DeadlineExceeded\<close>\<close>
  | ErrSyntax           \<comment> \<open>\<^verbatim>\<open>strconv.ErrSyntax\<close>\<close>
  | ErrRange            \<comment> \<open>\<^verbatim>\<open>strconv.ErrRange\<close>\<close>
  | AddrError string string
      \<comment> \<open>\<^verbatim>\<open>&net.AddrError{Err, Addr}\<close>\<close>
  | NumError string string error
      \<comment> \<open>\<^verbatim>\<open>&strconv.NumError{Func, Num, Err}\<close>\<close>
  | Failure string      \<comment> \<open>any other error, e.g. \<^verbatim>\<open>errors.New(msg)\<close>\<close>

text \<open>A Go function value (a job body, a deferred callback, a handler) is opaque: it is
  identified by a label, and what a call of it does comes from the environment.\<close>

type_synonym func = string

record http_Server =
  Addr :: string
  Handler :: func

record job =
  name :: string
  interval :: int     \<comment> \<open>\<^verbatim>\<open>time.Duration\<close>: nanoseconds\<close>
  fn :: func

text \<open>The two Go maps are association lists in insertion order, so that their keys can
  be enumerated; a \<^verbatim>\<open>nil\<close> map and an empty map are both the empty list
  (the code replaces \<^verbatim>\<open>nil\<close> by an empty map before it writes).\<close>

record Bootstrapper =
  servers :: "(int \<times> http_Server) list"
  jobs :: "(string \<times> job) list"
  startupJobs :: "job list"
  deferFns :: "func list"

definition new_Bootstrapper :: Bootstrapper where
  "new_Bootstrapper = \<lparr>servers = [], jobs = [], startupJobs = [], deferFns = []\<rparr>"

section \<open>Effects: the trace of a run\<close>

datatype slog_level = LevelInfo | LevelWarn | LevelError

datatype attr_value = StringValue string | IntValue int | AnyValue error

type_synonym attrs = "(string \<times> attr_value) list"

datatype unit_id = ServerUnit int | JobUnit string

text \<open>Every effect of the program is an event of its trace.  A \<open>Log\<close> event is one call
  of \<^verbatim>\<open>slog\<close>: the level, the attributes the context carries
  (\<^verbatim>\<open>slogctx.With\<close>), the message and the key/value arguments.  \<open>Exit\<close> is the
  end of the process by \<^verbatim>\<open>os.Exit\<close>, \<open>Panic\<close> its end by a panic that no
  goroutine recovers.\<close>

datatype event =
    SetDefault string
  | Log slog_level attrs string attrs
  | Exit int
  | Panic string
  | CallFn func attrs
  | RetFn func "error option"
  | WgAdd
  | Go unit_id
  | WgDone
  | WgWait
  | ListenAndServe int
  | SignalNotify
  | SignalReceived
  | TokenCancelled
  | Shutdown int
  | Close int
  | CallDefer func

definition slogFatalContext :: "attrs \<Rightarrow> string \<Rightarrow> error option \<Rightarrow> event list" where
  "slogFatalContext ctx msg err =
     [case err of
        Some e \<Rightarrow> Log LevelError ctx msg [(''error'', AnyValue e)]
      | None \<Rightarrow> Log LevelError ctx msg [],
      Exit 1]"

definition slogFatal :: "string \<Rightarrow> error option \<Rightarrow> event list" where
  "slogFatal msg err = slogFatalContext [] msg err"

section \<open>Standard library: addresses and numbers\<close>

text \<open>\<^verbatim>\<open>net.SplitHostPort\<close> and \<^verbatim>\<open>strconv.Atoi\<close> belong to Go's standard
  library; they are modelled after their documented behaviour.  Their errors are the
  structs they return: \<^verbatim>\<open>SplitHostPort\<close> reports what is wrong with the address
  it was given, \<^verbatim>\<open>Atoi\<close> reports the function, the input and
  \<^verbatim>\<open>ErrSyntax\<close> or \<^verbatim>\<open>ErrRange\<close>.\<close>

fun IndexByte :: "string \<Rightarrow> char \<Rightarrow> nat option" where
  "IndexByte [] c = None"
| "IndexByte (x # xs) c = (if x = c then Some 0 else map_option Suc (IndexByte xs c))"

definition LastIndexByte :: "string \<Rightarrow> char \<Rightarrow> nat option" where
  "LastIndexByte s c = map_option (\<lambda>i. length s - 1 - i) (IndexByte (rev s) c)"

definition split_rest :: "string \<Rightarrow> nat \<Rightarrow> nat \<Rightarrow> nat \<Rightarrow> string \<Rightarrow> error + string \<times> string" where
  "split_rest hostport i j k host =
     (if IndexByte (drop j hostport) CHR ''['' \<noteq> None
        then Inl (AddrError ''unexpected '[' in address'' hostport)
      else if IndexByte (drop k hostport) CHR '']'' \<noteq> None
        then Inl (AddrError ''unexpected ']' in address'' hostport)
      else Inr (host, drop (i + 1) hostport))"

definition SplitHostPort :: "string \<Rightarrow> error + string \<times> string" where
  "SplitHostPort hostport =
     (case LastIndexByte hostport CHR '':'' of
        None \<Rightarrow> Inl (AddrError ''missing port in address'' hostport)
      | Some i \<Rightarrow>
          if hostport ! 0 = CHR ''['' then
            (case IndexByte hostport CHR '']'' of
               None \<Rightarrow> Inl (AddrError ''missing ']' in address'' hostport)
             | Some e \<Rightarrow>
                 if e + 1 = length hostport
                   then Inl (AddrError ''missing port in address'' hostport)
                 else if e + 1 = i
                   then split_rest hostport i 1 (e + 1) (take (e - 1) (drop 1 hostport))
                 else if hostport ! (e + 1) = CHR '':''
                   then Inl (AddrError ''too many colons in address'' hostport)
                 else Inl (AddrError ''missing port in address'' hostport))
          else if IndexByte (take i hostport) CHR '':'' \<noteq> None
            then Inl (AddrError ''too many colons in address'' hostport)
          else split_rest hostport i 0 0 (take i hostport))"

definition is_digit :: "char \<Rightarrow> bool" where
  "is_digit c = (48 \<le> (of_char c :: nat) \<and> (of_char c :: nat) \<le> 57)"

fun digits_value :: "int \<Rightarrow> string \<Rightarrow> int" where
  "digits_value n [] = n"
| "digits_value n (c # cs) = digits_value (n * 10 + (int (of_char c) - 48)) cs"

definition Atoi :: "string \<Rightarrow> error + int" where
  "Atoi s =
     (let neg = (s \<noteq> [] \<and> hd s = CHR ''-'');
          ds = (if s \<noteq> [] \<and> (hd s = CHR ''-'' \<or> hd s = CHR ''+'') then tl s else s);
          v = (if neg then - digits_value 0 ds else digits_value 0 ds)
      in if ds = [] \<or> \<not> list_all is_digit ds then Inl (NumError ''Atoi'' s ErrSyntax)
         else if v < - (2 ^ 63) \<or> 2 ^ 63 \<le> v then Inl (NumError ''Atoi'' s ErrRange)
         else Inr v)"

text \<open>\<^verbatim>\<open>cmp.Or\<close> on two strings: the first that is not the zero value.\<close>

definition cmp_Or :: "string \<Rightarrow> string \<Rightarrow> string" where
  "cmp_Or a b = (if a \<noteq> [] then a else b)"

section \<open>The registry\<close>

text \<open>A registration that ends in \<^verbatim>\<open>slogFatal\<close> terminates the process: the
  result is \<open>Inl\<close> of the events it emitted (the log record and the exit), and nothing
  after it runs.\<close>

definition AddServer :: "Bootstrapper \<Rightarrow> http_Server \<Rightarrow> event list + Bootstrapper" where
  "AddServer b srv =
     (case SplitHostPort (Addr srv) of
        Inl e \<Rightarrow> Inl (slogFatal ''Failed to split host and port'' (Some e))
      | Inr (host, port) \<Rightarrow>
          (case Atoi port of
             Inl e \<Rightarrow> Inl (slogFatal ''Failed to convert port to int'' (Some e))
           | Inr portInt \<Rightarrow>
               if map_of (servers b) portInt \<noteq> None
                 then Inl (slogFatal ''server already added'' (Some (Failure ''server already added'')))
               else Inr (b\<lparr>servers := servers b @ [(portInt, srv)]\<rparr>)))"

definition addDebugServer :: "string \<Rightarrow> Bootstrapper \<Rightarrow> event list + Bootstrapper" where
  "addDebugServer getenv_DEBUG_PORT b =
     (let debugPort = cmp_Or getenv_DEBUG_PORT ''6060''
      in AddServer b \<lparr>Addr = '':'' @ debugPort, Handler = ''debugMux''\<rparr>)"

definition AddJob :: "Bootstrapper \<Rightarrow> string \<Rightarrow> int \<Rightarrow> func \<Rightarrow> event list + Bootstrapper" where
  "AddJob b n d f =
     (if map_of (jobs b) n \<noteq> None
        then Inl (slogFatal ''job already added'' (Some (Failure ''job already added'')))
      else Inr (b\<lparr>jobs := jobs b @ [(n, \<lparr>name = n, interval = d, fn = f\<rparr>)]\<rparr>))"

definition zero_job :: job where
  "zero_job = \<lparr>name = [], interval = 0, fn = []\<rparr>"

definition AddJobAndOnStartup :: "Bootstrapper \<Rightarrow> string \<Rightarrow> int \<Rightarrow> func \<Rightarrow> event list + Bootstrapper" where
  "AddJobAndOnStartup b n d f =
     (case AddJob b n d f of
        Inl t \<Rightarrow> Inl t
      | Inr b' \<Rightarrow>
          Inr (b'\<lparr>startupJobs := startupJobs b' @
                 [case map_of (jobs b') n of Some j \<Rightarrow> j | None \<Rightarrow> zero_job]\<rparr>))"

definition Defer :: "Bootstrapper \<Rightarrow> func \<Rightarrow> Bootstrapper" where
  "Defer b f = b\<lparr>deferFns := deferFns b @ [f]\<rparr>"

text \<open>The user's configuration function \<^verbatim>\<open>fn(b)\<close> is the sequence of registrations
  it makes and the error it returns.\<close>

datatype call =
    Call_AddServer http_Server
  | Call_AddJob string int func
  | Call_AddJobAndOnStartup string int func
  | Call_Defer func

record config =
  calls :: "call list"
  returns :: "error option"

fun do_call :: "Bootstrapper \<Rightarrow> call \<Rightarrow> event list + Bootstrapper" where
  "do_call b (Call_AddServer srv) = AddServer b srv"
| "do_call b (Call_AddJob n d f) = AddJob b n d f"
| "do_call b (Call_AddJobAndOnStartup n d f) = AddJobAndOnStartup b n d f"
| "do_call b (Call_Defer f) = Inr (Defer b f)"

fun configure :: "Bootstrapper \<Rightarrow> call list \<Rightarrow> event list + Bootstrapper" where
  "configure b [] = Inr b"
| "configure b (c # cs) =
     (case do_call b c of Inl t \<Rightarrow> Inl t | Inr b' \<Rightarrow> configure b' cs)"

section \<open>Standard library: context, ticker and select\<close>

text \<open>Time is counted in nanoseconds.  A context is the time at which its
  \<^verbatim>\<open>Done\<close> channel is closed (\<open>None\<close>: never) and the attributes
  \<^verbatim>\<open>slogctx.With\<close> stored in it.  Cancelling is idempotent: only the first call of
  a \<^verbatim>\<open>CancelFunc\<close> changes the token.\<close>

record Context =
  done_at :: "int option"
  ctx_attrs :: attrs

definition Background :: Context where
  "Background = \<lparr>done_at = None, ctx_attrs = []\<rparr>"

definition slogctx_With :: "Context \<Rightarrow> attrs \<Rightarrow> Context" where
  "slogctx_With c as = c\<lparr>ctx_attrs := ctx_attrs c @ as\<rparr>"

definition ctx_Err :: "Context \<Rightarrow> int \<Rightarrow> error option" where
  "ctx_Err c t =
     (case done_at c of
        Some tc \<Rightarrow> if tc \<le> t then Some Canceled else None
      | None \<Rightarrow> None)"

definition done_ready_at :: "Context \<Rightarrow> int \<Rightarrow> int option" where
  "done_ready_at c t = map_option (max t) (done_at c)"

definition CancelFunc :: "bool \<Rightarrow> event list \<times> bool" where
  "CancelFunc cancelled = (if cancelled then [] else [TokenCancelled], True)"

text \<open>A ticker created at time \<open>created\<close> with period \<open>d\<close> fires at
  \<open>created + d\<close>, \<open>created + 2 * d\<close>, ...; its channel holds one tick and further ticks
  are dropped while it is full.  \<^verbatim>\<open>time.NewTicker\<close> panics on a period that is not
  positive.\<close>

record Ticker =
  created :: int
  period :: int

definition NewTicker :: "int \<Rightarrow> int \<Rightarrow> string + Ticker" where
  "NewTicker now d =
     (if d \<le> 0 then Inl ''non-positive interval for NewTicker''
      else Inr \<lparr>created = now, period = d\<rparr>)"

definition ticks_by :: "Ticker \<Rightarrow> int \<Rightarrow> int" where
  "ticks_by tk t = (t - created tk) div period tk"

text \<open>When a receive on the ticker's channel that starts at time \<open>t\<close> completes, the
  previous receive (or the creation of the ticker) having been at time \<open>r\<close>: at once if
  a tick fired in between, at the next tick otherwise.\<close>

definition tick_ready_at :: "Ticker \<Rightarrow> int \<Rightarrow> int \<Rightarrow> int" where
  "tick_ready_at tk r t =
     (if ticks_by tk r < ticks_by tk t then t
      else created tk + (ticks_by tk t + 1) * period tk)"

text \<open>A \<^verbatim>\<open>select\<close> over the two channels proceeds with the case that is ready
  first; when both are ready at the same time, Go chooses one of them at random: the
  choice \<open>pick\<close> comes from the environment.\<close>

datatype select_case = CaseDone | CaseTick

definition select_done_tick :: "int option \<Rightarrow> int \<Rightarrow> select_case \<Rightarrow> select_case \<times> int" where
  "select_done_tick td tt pick =
     (case td of
        None \<Rightarrow> (CaseTick, tt)
      | Some d \<Rightarrow>
          if d < tt then (CaseDone, d)
          else if tt < d then (CaseTick, tt)
          else (pick, tt))"

section \<open>The job loop\<close>

text \<open>What the environment does during one iteration of the loop: how long the job
  function runs, what it returns, and which case the runtime picks should both cases
  of the \<^verbatim>\<open>select\<close> be ready.  When the observations are used up the job function
  has been called and has not returned yet: the unit is \<open>Running\<close>.\<close>

record invocation =
  dur :: int
  err :: "error option"
  pick :: select_case

datatype status = Running | Exited | Panicked

definition log_failure :: "Context \<Rightarrow> int \<Rightarrow> error option \<Rightarrow> (int \<times> event) list" where
  "log_failure c t r =
     (case r of
        Some e \<Rightarrow>
          if ctx_Err c t = None
            then [(t, Log LevelError (ctx_attrs c) ''failed to run job'' [(''error'', AnyValue e)])]
          else []
      | None \<Rightarrow> [])"

fun runJob_loop ::
  "Context \<Rightarrow> Ticker \<Rightarrow> func \<Rightarrow> int \<Rightarrow> invocation list \<Rightarrow> (int \<times> event) list \<times> status" where
  "runJob_loop c tk f now [] = ([(now, CallFn f (ctx_attrs c))], Running)"
| "runJob_loop c tk f now (i # is) =
     (let t1 = now + dur i;
          this = [(now, CallFn f (ctx_attrs c)), (t1, RetFn f (err i))] @ log_failure c t1 (err i)
      in case select_done_tick (done_ready_at c t1) (tick_ready_at tk now t1) (pick i) of
           (CaseDone, t) \<Rightarrow> (this, Exited)
         | (CaseTick, t) \<Rightarrow>
             (case runJob_loop c tk f t is of (rest, st) \<Rightarrow> (this @ rest, st)))"

definition runJob ::
  "Context \<Rightarrow> string \<Rightarrow> int \<Rightarrow> func \<Rightarrow> int \<Rightarrow> invocation list \<Rightarrow> (int \<times> event) list \<times> status" where
  "runJob ctx n d f now obs =
     (case NewTicker now d of
        Inl msg \<Rightarrow> ([(now, Panic msg)], Panicked)
      | Inr ticker \<Rightarrow>
          runJob_loop (slogctx_With ctx [(''job'', StringValue n)]) ticker f now obs)"

section \<open>Run\<close>

text \<open>The world around one run: the environment variable, what each call into user
  code or the standard library returns, the order in which the runtime's randomised
  \<^verbatim>\<open>range\<close> over a map visits the keys (keys are visited by ascending rank), and
  when the signal arrives (\<open>None\<close>: never).\<close>

record env =
  getenv_DEBUG_PORT :: string
  startup_result :: "string \<Rightarrow> error option"
  jobs_rank :: "string \<Rightarrow> nat"
  servers_rank :: "int \<Rightarrow> nat"
  signal_at :: "int option"
  Shutdown_result :: "int \<Rightarrow> error option"
  Close_result :: "int \<Rightarrow> error option"
  ListenAndServe_result :: "int \<Rightarrow> error option"
  started_at :: "string \<Rightarrow> int"
  job_runs :: "string \<Rightarrow> invocation list"

definition range_keys :: "('k \<Rightarrow> nat) \<Rightarrow> ('k \<times> 'v) list \<Rightarrow> 'k list" where
  "range_keys rank m = sort_key rank (map fst m)"

definition bootstrap :: "env \<Rightarrow> config \<Rightarrow> event list + Bootstrapper" where
  "bootstrap e cfg =
     (case configure new_Bootstrapper (calls cfg) of
        Inl t \<Rightarrow> Inl t
      | Inr b \<Rightarrow>
          (case returns cfg of
             Some er \<Rightarrow> Inl (slogFatal ''failed to start service'' (Some er))
           | None \<Rightarrow> addDebugServer (getenv_DEBUG_PORT e) b))"

fun startup :: "(string \<Rightarrow> error option) \<Rightarrow> job list \<Rightarrow> event list + event list" where
  "startup res [] = Inr []"
| "startup res (j # js) =
     (let ctx = [(''job'', StringValue (name j))];
          this = [CallFn (fn j) ctx, RetFn (fn j) (res (name j))]
      in case res (name j) of
           Some er \<Rightarrow> Inl (this @ slogFatalContext ctx ''failed to run startup job'' (Some er))
         | None \<Rightarrow>
             (case startup res js of Inl t \<Rightarrow> Inl (this @ t) | Inr t \<Rightarrow> Inr (this @ t)))"

definition launch_servers :: "Bootstrapper \<Rightarrow> event list" where
  "launch_servers b =
     concat (map (\<lambda>port. [WgAdd, Go (ServerUnit port)]) (sort (map fst (servers b))))"

definition launch_jobs :: "env \<Rightarrow> Bootstrapper \<Rightarrow> event list" where
  "launch_jobs e b =
     concat (map (\<lambda>n. [WgAdd, Go (JobUnit n)]) (range_keys (jobs_rank e) (jobs b)))"

definition shutdown_server :: "env \<Rightarrow> int \<Rightarrow> event list" where
  "shutdown_server e port =
     Shutdown port #
     (case Shutdown_result e port of
        None \<Rightarrow> []
      | Some er \<Rightarrow>
          Log LevelWarn [] ''graceful shutdown failed - shutting down forcefully''
            [(''error'', AnyValue er), (''port'', IntValue port)] #
          Close port #
          (case Close_result e port of
             None \<Rightarrow> []
           | Some er2 \<Rightarrow>
               [Log LevelWarn [] ''forceful shutdown failed''
                  [(''error'', AnyValue er2), (''port'', IntValue port)]]))"

definition shutdown :: "env \<Rightarrow> Bootstrapper \<Rightarrow> event list" where
  "shutdown e b =
     (case CancelFunc False of
        (flip, token) \<Rightarrow>
          [SignalReceived,
           Log LevelInfo [] ''received shutdown signal'' [],
           Log LevelInfo [] ''stopping jobs'' []] @
          flip @
          [Log LevelInfo [] ''shutting down server...'' []] @
          concat (map (shutdown_server e) (range_keys (servers_rank e) (servers b))) @
          [Log LevelInfo [] ''waiting for jobs to finish'' [], WgWait] @
          map CallDefer (deferFns b) @
          [Log LevelInfo [] ''bye!'' []] @
          fst (CancelFunc token))"

definition serve :: "env \<Rightarrow> Bootstrapper \<Rightarrow> event list" where
  "serve e b =
     launch_servers b @ launch_jobs e b @ [SignalNotify] @
     (case signal_at e of None \<Rightarrow> [] | Some t \<Rightarrow> shutdown e b)"

definition Run :: "env \<Rightarrow> string \<Rightarrow> config \<Rightarrow> event list" where
  "Run e nm cfg =
     [SetDefault nm, Log LevelInfo [] ''starting service...'' []] @
     (case bootstrap e cfg of
        Inl t \<Rightarrow> t
      | Inr b \<Rightarrow>
          (case startup (startup_result e) (startupJobs b) of
             Inl t \<Rightarrow> t
           | Inr t \<Rightarrow> t @ serve e b))"

text \<open>The two kinds of goroutine \<^verbatim>\<open>Run\<close> launches.  Both begin with
  \<^verbatim>\<open>defer wg.Done()\<close>.  A deferred call runs when the function of the goroutine
  returns, and also while a panic unwinds the goroutine, before the runtime ends the
  process: in the trace it stands after the events of the function and, in the second
  case, before the event \<open>Panic\<close> at which the process ends.  It does not run when the
  function has not returned, or when the process leaves through \<^verbatim>\<open>os.Exit\<close>.\<close>

fun is_Panic :: "event \<Rightarrow> bool" where
  "is_Panic (Panic m) = True"
| "is_Panic ev = False"

definition unwind :: "event list \<Rightarrow> event list \<Rightarrow> event list" where
  "unwind dfr evs =
     takeWhile (\<lambda>ev. \<not> is_Panic ev) evs @ dfr @ dropWhile (\<lambda>ev. \<not> is_Panic ev) evs"

definition server_unit :: "env \<Rightarrow> int \<Rightarrow> http_Server \<Rightarrow> event list" where
  "server_unit e port server =
     [Log LevelInfo [] ''starting server'' [(''addr'', StringValue (Addr server))],
      ListenAndServe port] @
     (case ListenAndServe_result e port of
        Some er \<Rightarrow>
          if er \<noteq> ErrServerClosed then slogFatal ''failed to start server'' (Some er)
          else [WgDone]
      | None \<Rightarrow> [WgDone])"

definition job_unit :: "env \<Rightarrow> string \<Rightarrow> job \<Rightarrow> event list" where
  "job_unit e n j =
     (case runJob \<lparr>done_at = signal_at e, ctx_attrs = []\<rparr> n (interval j) (fn j)
             (started_at e n) (job_runs e n) of
        (tr, Exited) \<Rightarrow> map snd tr @ [WgDone]
      | (tr, Panicked) \<Rightarrow> unwind [WgDone] (map snd tr)
      | (tr, Running) \<Rightarrow> map snd tr)"

section \<open>Goroutines and the wait group\<close>

text \<open>
  \<open>Run\<close> above lists the events of the main goroutine in program order.  What the
  whole process does is an interleaving of these with the events of the launched
  goroutines.  A goroutine may take its first step at any time after its
  \<^verbatim>\<open>go\<close> statement; \<^verbatim>\<open>wg.Wait()\<close> returns only while the counter is zero;
  \<^verbatim>\<open>os.Exit\<close> and a panic, in any goroutine, end the process (the events of a
  goroutine that panics list its deferred calls before the event \<open>Panic\<close>).  The
  schedule, the list of the goroutines that take the successive steps, comes from the
  environment: \<open>interleave\<close> returns the trace of the process, each event with the
  goroutine that made it, or \<open>None\<close> when the schedule asks for a step that cannot be
  made.
  Blocking inside a goroutine (on the listener, the ticker or the token) is not
  modelled here: the interleavings of the program are among those of \<open>interleave\<close>.
\<close>

datatype thread = Main | Goroutine unit_id

fun halts :: "event \<Rightarrow> bool" where
  "halts (Exit c) = True"
| "halts (Panic m) = True"
| "halts ev = False"

definition spawn ::
  "(unit_id \<Rightarrow> event list) \<Rightarrow> event \<Rightarrow> (unit_id \<rightharpoonup> event list) \<Rightarrow> (unit_id \<rightharpoonup> event list)" where
  "spawn body ev pool = (case ev of Go u \<Rightarrow> pool(u \<mapsto> body u) | _ \<Rightarrow> pool)"

definition wg_step :: "event \<Rightarrow> int \<Rightarrow> int" where
  "wg_step ev wg = (case ev of WgAdd \<Rightarrow> wg + 1 | WgDone \<Rightarrow> wg - 1 | _ \<Rightarrow> wg)"

fun interleave ::
  "(unit_id \<Rightarrow> event list) \<Rightarrow> thread list \<Rightarrow> event list \<Rightarrow> (unit_id \<rightharpoonup> event list) \<Rightarrow> int
     \<Rightarrow> (thread \<times> event) list option" where
  "interleave body [] main pool wg = Some []"
| "interleave body (Main # sch) main pool wg =
     (case main of
        [] \<Rightarrow> None
      | ev # rest \<Rightarrow>
          if ev = WgWait \<and> wg \<noteq> 0 then None
          else if halts ev then (if sch = [] then Some [(Main, ev)] else None)
          else map_option ((#) (Main, ev))
                 (interleave body sch rest (spawn body ev pool) (wg_step ev wg)))"
| "interleave body (Goroutine u # sch) main pool wg =
     (case pool u of
        None \<Rightarrow> None
      | Some [] \<Rightarrow> None
      | Some (ev # rest) \<Rightarrow>
          if halts ev then (if sch = [] then Some [(Goroutine u, ev)] else None)
          else map_option ((#) (Goroutine u, ev))
                 (interleave body sch main (pool(u \<mapsto> rest)) (wg_step ev wg)))"

text \<open>The function each launched goroutine runs, for the registry \<open>b\<close>:
  \<^verbatim>\<open>b.servers[port]\<close> and the job \<^verbatim>\<open>j\<close> of the \<^verbatim>\<open>range\<close> over
  \<^verbatim>\<open>b.jobs\<close> are the arguments of the two \<^verbatim>\<open>go\<close> statements.\<close>

definition unit_body :: "env \<Rightarrow> Bootstrapper \<Rightarrow> unit_id \<Rightarrow> event list" where
  "unit_body e b u =
     (case u of
        ServerUnit port \<Rightarrow>
          (case map_of (servers b) port of Some server \<Rightarrow> server_unit e port server | None \<Rightarrow> [])
      | JobUnit n \<Rightarrow>
          (case map_of (jobs b) n of Some j \<Rightarrow> job_unit e n j | None \<Rightarrow> []))"

section \<open>Reading a trace\<close>

fun is_Go :: "event \<Rightarrow> bool" where
  "is_Go (Go u) = True"
| "is_Go ev = False"

fun is_Shutdown :: "event \<Rightarrow> bool" where
  "is_Shutdown (Shutdown p) = True"
| "is_Shutdown ev = False"

fun is_CallDefer :: "event \<Rightarrow> bool" where
  "is_CallDefer (CallDefer f) = True"
| "is_CallDefer ev = False"

fun is_Log :: "event \<Rightarrow> bool" where
  "is_Log (Log lvl a m kv) = True"
| "is_Log ev = False"

text \<open>The call of a job function, or its return.\<close>

fun is_job_event :: "event \<Rightarrow> bool" where
  "is_job_event (CallFn f a) = True"
| "is_job_event (RetFn f r) = True"
| "is_job_event ev = False"

text \<open>\<open>precedes P Q tr\<close>: every element of \<open>tr\<close> that satisfies \<open>P\<close> stands strictly
  before every element that satisfies \<open>Q\<close>.\<close>

fun precedes :: "('a \<Rightarrow> bool) \<Rightarrow> ('a \<Rightarrow> bool) \<Rightarrow> 'a list \<Rightarrow> bool" where
  "precedes P Q [] = True"
| "precedes P Q (x # xs) =
     (if Q x then \<not> P x \<and> list_all (\<lambda>y. \<not> P y) xs else precedes P Q xs)"

text \<open>The goroutines launched, the job functions called with the attributes of their
  context, the ports of the server goroutines launched and the deferred callbacks
  called, each in the order of the trace.\<close>

definition launched :: "event list \<Rightarrow> unit_id list" where
  "launched tr = List.map_filter (\<lambda>ev. case ev of Go u \<Rightarrow> Some u | _ \<Rightarrow> None) tr"

definition called :: "event list \<Rightarrow> (func \<times> attrs) list" where
  "called tr = List.map_filter (\<lambda>ev. case ev of CallFn f a \<Rightarrow> Some (f, a) | _ \<Rightarrow> None) tr"

definition launched_servers :: "event list \<Rightarrow> int list" where
  "launched_servers tr =
     List.map_filter (\<lambda>ev. case ev of Go (ServerUnit p) \<Rightarrow> Some p | _ \<Rightarrow> None) tr"

definition deferred :: "event list \<Rightarrow> func list" where
  "deferred tr = List.map_filter (\<lambda>ev. case ev of CallDefer f \<Rightarrow> Some f | _ \<Rightarrow> None) tr"

text \<open>
  \<open>joined us tr\<close>, for a trace \<open>tr\<close> of the process that begins when the goroutines
  \<open>us\<close> are launched and not finished.  A goroutine joins these when the main
  goroutine launches it and leaves them when it calls \<^verbatim>\<open>wg.Done()\<close>.  Every
  step of a goroutine in the trace is a step of one of these: once a goroutine has
  called \<^verbatim>\<open>wg.Done()\<close> it makes no further step.  The one exception is a
  goroutine that panics: its deferred \<^verbatim>\<open>wg.Done()\<close> runs while the panic
  unwinds it, and the end of the process by that panic, the last event of the trace,
  follows.  And whenever the main goroutine calls a deferred callback, no launched
  goroutine is left unfinished.
\<close>

fun joined :: "unit_id list \<Rightarrow> (thread \<times> event) list \<Rightarrow> bool" where
  "joined us [] = True"
| "joined us ((Main, Go u) # tr) = joined (u # us) tr"
| "joined us ((Main, CallDefer f) # tr) = (us = [] \<and> joined us tr)"
| "joined us ((Main, ev) # tr) = joined us tr"
| "joined us ((Goroutine u, ev) # tr) =
     (if u \<in> set us then joined (if ev = WgDone then removeAll u us else us) tr
      else is_Panic ev \<and> tr = [])"

text \<open>The ports of the server goroutines in the order in which they write their
  ``starting server'' line.\<close>

definition start_logs :: "(thread \<times> event) list \<Rightarrow> int list" where
  "start_logs tr =
     List.map_filter
       (\<lambda>x. case x of
              (Goroutine (ServerUnit p), Log LevelInfo a m kv) \<Rightarrow>
                if m = ''starting server'' then Some p else None
            | _ \<Rightarrow> None) tr"

subsection \<open>Registrations\<close>

text \<open>The port under which \<^verbatim>\<open>AddServer\<close> files a server, if it finds one.\<close>

definition port_of :: "http_Server \<Rightarrow> int option" where
  "port_of srv =
     (case SplitHostPort (Addr srv) of
        Inl e \<Rightarrow> None
      | Inr (host, port) \<Rightarrow> (case Atoi port of Inl e \<Rightarrow> None | Inr portInt \<Rightarrow> Some portInt))"

text \<open>The server \<^verbatim>\<open>addDebugServer\<close> registers, for a value of
  \<^verbatim>\<open>DEBUG_PORT\<close>.\<close>

definition debug_server :: "string \<Rightarrow> http_Server" where
  "debug_server v = \<lparr>Addr = '':'' @ cmp_Or v ''6060'', Handler = ''debugMux''\<rparr>"

text \<open>The jobs a configuration function registers with \<^verbatim>\<open>AddJobAndOnStartup\<close> and
  the callbacks it passes to \<^verbatim>\<open>Defer\<close>, in the order of its calls; and the
  registrations that do not return.\<close>

fun startup_jobs_of :: "call list \<Rightarrow> job list" where
  "startup_jobs_of [] = []"
| "startup_jobs_of (Call_AddJobAndOnStartup n d f # cs) =
     \<lparr>name = n, interval = d, fn = f\<rparr> # startup_jobs_of cs"
| "startup_jobs_of (c # cs) = startup_jobs_of cs"

fun defers_of :: "call list \<Rightarrow> func list" where
  "defers_of [] = []"
| "defers_of (Call_Defer f # cs) = f # defers_of cs"
| "defers_of (c # cs) = defers_of cs"

fun rejected :: "Bootstrapper \<Rightarrow> call \<Rightarrow> bool" where
  "rejected b (Call_AddServer srv) =
     (case port_of srv of None \<Rightarrow> True | Some p \<Rightarrow> map_of (servers b) p \<noteq> None)"
| "rejected b (Call_AddJob n d f) = (map_of (jobs b) n \<noteq> None)"
| "rejected b (Call_AddJobAndOnStartup n d f) = (map_of (jobs b) n \<noteq> None)"
| "rejected b (Call_Defer f) = False"

subsection \<open>Parts of the trace of the main goroutine\<close>

text \<open>The call of a startup job that succeeds; the trace up to the cancellation of the
  token, \<open>t\<close> being the trace of the startup jobs; the shutdown loop.\<close>

definition invoke_ok :: "job \<Rightarrow> event list" where
  "invoke_ok j = [CallFn (fn j) [(''job'', StringValue (name j))], RetFn (fn j) None]"

definition before_cancel :: "env \<Rightarrow> string \<Rightarrow> Bootstrapper \<Rightarrow> event list \<Rightarrow> event list" where
  "before_cancel e nm b t =
     [SetDefault nm, Log LevelInfo [] ''starting service...'' []] @ t @
     launch_servers b @ launch_jobs e b @
     [SignalNotify, SignalReceived, Log LevelInfo [] ''received shutdown signal'' [],
      Log LevelInfo [] ''stopping jobs'' []]"

definition shutdown_servers :: "env \<Rightarrow> Bootstrapper \<Rightarrow> event list" where
  "shutdown_servers e b =
     concat (map (shutdown_server e) (range_keys (servers_rank e) (servers b)))"

subsection \<open>The trace of a job loop\<close>

text \<open>The events of one iteration of the loop of \<open>runJob\<close> that begins at time \<open>now\<close>,
  and the outcome of its \<^verbatim>\<open>select\<close>.\<close>

definition iteration :: "Context \<Rightarrow> func \<Rightarrow> int \<Rightarrow> invocation \<Rightarrow> (int \<times> event) list" where
  "iteration c f now i =
     [(now, CallFn f (ctx_attrs c)), (now + dur i, RetFn f (err i))] @
     log_failure c (now + dur i) (err i)"

definition selected :: "Context \<Rightarrow> Ticker \<Rightarrow> int \<Rightarrow> invocation \<Rightarrow> select_case \<times> int" where
  "selected c tk now i =
     select_done_tick (done_ready_at c (now + dur i)) (tick_ready_at tk now (now + dur i)) (pick i)"

text \<open>The times at which the job function is called and returns, the errors it
  returns with their times, and the log records of the loop.\<close>

definition call_times :: "(int \<times> event) list \<Rightarrow> int list" where
  "call_times tr = List.map_filter (\<lambda>x. case x of (t, CallFn f a) \<Rightarrow> Some t | _ \<Rightarrow> None) tr"

definition return_times :: "(int \<times> event) list \<Rightarrow> int list" where
  "return_times tr = List.map_filter (\<lambda>x. case x of (t, RetFn f r) \<Rightarrow> Some t | _ \<Rightarrow> None) tr"

definition returned_errors :: "(int \<times> event) list \<Rightarrow> (int \<times> error) list" where
  "returned_errors tr =
     List.map_filter (\<lambda>x. case x of (t, RetFn f (Some e)) \<Rightarrow> Some (t, e) | _ \<Rightarrow> None) tr"

definition logs :: "(int \<times> event) list \<Rightarrow> (int \<times> event) list" where
  "logs tr = filter (\<lambda>x. is_Log (snd x)) tr"

text \<open>The record \<open>runJob\<close> logs, in a context with the attributes \<open>a\<close>, for an error
  returned at a time.\<close>

definition failure_record :: "attrs \<Rightarrow> int \<times> error \<Rightarrow> int \<times> event" where
  "failure_record a x =
     (fst x, Log LevelError a ''failed to run job'' [(''error'', AnyValue (snd x))])"

text \<open>The same calls of the job function, none returning an error.\<close>

definition without_errors :: "invocation list \<Rightarrow> invocation list" where
  "without_errors obs = map (\<lambda>i. i\<lparr>err := None\<rparr>) obs"

text \<open>\<open>paced d t ts\<close>: the first time of \<open>ts\<close> is no earlier than \<open>t\<close>, the second no
  earlier than \<open>t + d\<close>, the third no earlier than \<open>t + 2 * d\<close>, and so on.\<close>

fun paced :: "int \<Rightarrow> int \<Rightarrow> int list \<Rightarrow> bool" where
  "paced d t [] = True"
| "paced d t (c # cs) = (t \<le> c \<and> paced d (t + d) cs)"


subsection \<open>The invariant of the wait group\<close>

text \<open>
  What is left of a goroutine that has called \<^verbatim>\<open>wg.Done()\<close>: nothing, or
  the end of the process by its panic.  What is left of a goroutine that has not: it
  does not call \<^verbatim>\<open>wg.Add\<close>, and if it calls \<^verbatim>\<open>wg.Done()\<close>, what follows
  is of the first kind.
\<close>

fun crash_only :: "event list \<Rightarrow> bool" where
  "crash_only [] = True"
| "crash_only [ev] = is_Panic ev"
| "crash_only (ev # ev' # evs) = False"

fun done_last :: "event list \<Rightarrow> bool" where
  "done_last [] = True"
| "done_last (ev # evs) =
     (if ev = WgDone then crash_only evs else ev \<noteq> WgAdd \<and> done_last evs)"

text \<open>
  \<open>tracked main pool wg us\<close> relates a state of the process (the rest of the main
  goroutine, the rests of the launched goroutines, the counter) to the list \<open>us\<close> of
  the launched goroutines that have not called \<^verbatim>\<open>wg.Done()\<close> yet: the counter
  is their number plus the number \<open>k\<close> of \<^verbatim>\<open>wg.Add(1)\<close> whose \<^verbatim>\<open>go\<close>
  statement is still to come.  \<open>ready k ids main\<close> says that the rest of the main
  goroutine keeps it so: every launch is of a new goroutine and follows its
  \<^verbatim>\<open>wg.Add(1)\<close>, no callback is called before \<^verbatim>\<open>wg.Wait()\<close> and no
  goroutine is launched after it.
\<close>

fun ready :: "nat \<Rightarrow> unit_id set \<Rightarrow> event list \<Rightarrow> bool" where
  "ready k ids [] = True"
| "ready k ids (WgAdd # m) = ready (Suc k) ids m"
| "ready k ids (Go u # m) = (0 < k \<and> u \<notin> ids \<and> ready (k - 1) (insert u ids) m)"
| "ready k ids (WgWait # m) = (\<forall>ev\<in>set m. \<not> is_Go ev)"
| "ready k ids (CallDefer f # m) = False"
| "ready k ids (WgDone # m) = False"
| "ready k ids (ev # m) = ready k ids m"

definition tracked ::
  "event list \<Rightarrow> (unit_id \<rightharpoonup> event list) \<Rightarrow> int \<Rightarrow> unit_id list \<Rightarrow> bool" where
  "tracked main pool wg us \<longleftrightarrow>
     (\<exists>k ids. ready k ids main \<and> dom pool \<subseteq> ids \<and> wg = int (length us) + int k)
     \<and> distinct us \<and> set us \<subseteq> dom pool
     \<and> (\<forall>u rest. pool u = Some rest \<longrightarrow>
           (if u \<in> set us then done_last rest else crash_only rest))"

definition unit_ok :: "(unit_id \<Rightarrow> event list) \<Rightarrow> bool" where
  "unit_ok body \<longleftrightarrow> (\<forall>u. done_last (body u))"

text \<open>The events that touch neither the wait group nor the launches nor the
  callbacks.\<close>

fun neutral :: "event \<Rightarrow> bool" where
  "neutral WgAdd = False"
| "neutral WgWait = False"
| "neutral WgDone = False"
| "neutral (Go u) = False"
| "neutral (CallDefer f) = False"
| "neutral ev = True"

section \<open>Example inputs\<close>

text \<open>A registry holding one server on port 8080 and one job.\<close>

definition ex_registry :: Bootstrapper where
  "ex_registry =
     \<lparr>servers = [(8080, \<lparr>Addr = '':8080'', Handler = ''api''\<rparr>)],
      jobs = [(''beat'', \<lparr>name = ''beat'', interval = 5, fn = ''f''\<rparr>)],
      startupJobs = [], deferFns = []\<rparr>"

text \<open>An environment: \<^verbatim>\<open>DEBUG_PORT\<close> is not set; the signal arrives at time 100,
  while every job function is running its first call, which returns the context's
  error at time 200; the graceful shutdown of port 8080 runs into its deadline; every
  other call succeeds.\<close>

definition ex_env :: env where
  "ex_env =
     \<lparr>getenv_DEBUG_PORT = [],
      startup_result = (\<lambda>n. None),
      jobs_rank = (\<lambda>n. if n = ''beat'' then 0 else 1),
      servers_rank = (\<lambda>p. if p = 8080 then 0 else 1),
      signal_at = Some 100,
      Shutdown_result = (\<lambda>p. if p = 8080 then Some DeadlineExceeded else None),
      Close_result = (\<lambda>p. None),
      ListenAndServe_result = (\<lambda>p. Some ErrServerClosed),
      started_at = (\<lambda>n. 0),
      job_runs = (\<lambda>n. [\<lparr>dur = 200, err = Some Canceled, pick = CaseDone\<rparr>])\<rparr>"

text \<open>A configuration function with one server, two startup jobs, one more job and
  three deferred callbacks, and the registry \<open>Run\<close> works on after it.\<close>

definition ex_config :: config where
  "ex_config =
     \<lparr>calls = [Call_AddServer \<lparr>Addr = '':8080'', Handler = ''api''\<rparr>,
               Call_AddJobAndOnStartup ''warm'' 10 ''f1'',
               Call_AddJobAndOnStartup ''load'' 20 ''f2'',
               Call_AddJob ''beat'' 5 ''f3'',
               Call_Defer ''A'', Call_Defer ''B'', Call_Defer ''C''],
      returns = None\<rparr>"

definition ex_bootstrapped :: Bootstrapper where
  "ex_bootstrapped =
     \<lparr>servers = [(8080, \<lparr>Addr = '':8080'', Handler = ''api''\<rparr>),
                 (6060, \<lparr>Addr = '':6060'', Handler = ''debugMux''\<rparr>)],
      jobs = [(''warm'', \<lparr>name = ''warm'', interval = 10, fn = ''f1''\<rparr>),
              (''load'', \<lparr>name = ''load'', interval = 20, fn = ''f2''\<rparr>),
              (''beat'', \<lparr>name = ''beat'', interval = 5, fn = ''f3''\<rparr>)],
      startupJobs = [\<lparr>name = ''warm'', interval = 10, fn = ''f1''\<rparr>,
                     \<lparr>name = ''load'', interval = 20, fn = ''f2''\<rparr>],
      deferFns = [''A'', ''B'', ''C'']\<rparr>"

text \<open>A configuration function that takes port 6060 for a server of its own, and one
  that registers a startup job with interval 0.\<close>

definition ex_config_debug_port_taken :: config where
  "ex_config_debug_port_taken =
     \<lparr>calls = [Call_AddJobAndOnStartup ''warm'' 10 ''f1'',
               Call_AddServer \<lparr>Addr = ''localhost:6060'', Handler = ''admin''\<rparr>],
      returns = None\<rparr>"

definition ex_config_zero_interval :: config where
  "ex_config_zero_interval = \<lparr>calls = [Call_AddJobAndOnStartup ''tick'' 0 ''f''], returns = None\<rparr>"

text \<open>Two schedules for the run of \<open>ex_config\<close> in \<open>ex_env\<close>.  In the first the main
  goroutine runs up to the wait for the signal, three goroutines take a first step,
  the main goroutine runs up to \<^verbatim>\<open>wg.Wait()\<close>, every goroutine runs to its end
  and the main goroutine finishes.  The second stops after the launch of the two
  server goroutines and a first step of each, port 8080 first.\<close>

definition ex_schedule :: "thread list" where
  "ex_schedule =
     replicate 17 Main @
     [Goroutine (ServerUnit 8080), Goroutine (ServerUnit 6060), Goroutine (JobUnit ''warm'')] @
     replicate 10 Main @
     [Goroutine (ServerUnit 8080), Goroutine (ServerUnit 8080),
      Goroutine (ServerUnit 6060), Goroutine (ServerUnit 6060),
      Goroutine (JobUnit ''warm''), Goroutine (JobUnit ''warm''),
      Goroutine (JobUnit ''load''), Goroutine (JobUnit ''load''), Goroutine (JobUnit ''load''),
      Goroutine (JobUnit ''beat''), Goroutine (JobUnit ''beat''), Goroutine (JobUnit ''beat'')] @
     replicate 5 Main"

definition ex_schedule_late_log :: "thread list" where
  "ex_schedule_late_log =
     replicate 10 Main @ [Goroutine (ServerUnit 8080), Goroutine (ServerUnit 6060)]"

text \<open>Three calls of a job function, the first failing; a context whose token is
  cancelled at time 5; a ticker of period 10 created at time 0.\<close>

definition ex_runs :: "invocation list" where
  "ex_runs =
     [\<lparr>dur = 9, err = Some (Failure ''boom''), pick = CaseDone\<rparr>,
      \<lparr>dur = 25, err = None, pick = CaseDone\<rparr>,
      \<lparr>dur = 1, err = None, pick = CaseDone\<rparr>]"

definition ex_cancelled :: Context where
  "ex_cancelled = \<lparr>done_at = Some 5, ctx_attrs = [(''job'', StringValue ''beat'')]\<rparr>"

definition ex_ticker :: Ticker where
  "ex_ticker = \<lparr>created = 0, period = 10\<rparr>"

section \<open>Facts about traces\<close>

lemma precedes_iff:
  "precedes P Q tr \<longleftrightarrow> (\<forall>i j. i < length tr \<and> j < length tr \<and> P (tr ! i) \<and> Q (tr ! j) \<longrightarrow> i < j)"
proof (induction tr)
  case Nil
  then show ?case by simp
next
  case (Cons x xs)
  show ?case
  proof (cases "Q x")
    case True
    have "(\<not> P x \<and> list_all (\<lambda>y. \<not> P y) xs) \<longleftrightarrow> (\<forall>i. i < length (x # xs) \<longrightarrow> \<not> P ((x # xs) ! i))"
      (is "?A \<longleftrightarrow> ?B")
    proof
      assume a: ?A
      show ?B
      proof (intro allI impI)
        fix i assume "i < length (x # xs)"
        then show "\<not> P ((x # xs) ! i)" using a by (cases i) (auto simp: list_all_length)
      qed
    next
      assume b: ?B
      have "\<not> P x" using b[rule_format, of 0] by simp
      moreover have "\<not> P (xs ! i)" if "i < length xs" for i
        using b[rule_format, of "Suc i"] that by simp
      ultimately show ?A by (simp add: list_all_length)
    qed
    moreover have "(\<forall>i. i < length (x # xs) \<longrightarrow> \<not> P ((x # xs) ! i)) \<longleftrightarrow>
       (\<forall>i j. i < length (x # xs) \<and> j < length (x # xs) \<and> P ((x # xs) ! i) \<and> Q ((x # xs) ! j) \<longrightarrow> i < j)"
      using True by (metis length_greater_0_conv list.distinct(1) not_less_zero nth_Cons_0)
    ultimately show ?thesis using True by simp
  next
    case False
    have "(\<forall>i j. i < length (x # xs) \<and> j < length (x # xs) \<and> P ((x # xs) ! i) \<and> Q ((x # xs) ! j) \<longrightarrow> i < j)
      \<longleftrightarrow> (\<forall>i j. i < length xs \<and> j < length xs \<and> P (xs ! i) \<and> Q (xs ! j) \<longrightarrow> i < j)"
      (is "?L \<longleftrightarrow> ?R")
    proof
      assume L: ?L
      show ?R
      proof (intro allI impI)
        fix i j assume "i < length xs \<and> j < length xs \<and> P (xs ! i) \<and> Q (xs ! j)"
        then have "Suc i < Suc j" using L[rule_format, of "Suc i" "Suc j"] by simp
        then show "i < j" by simp
      qed
    next
      assume R: ?R
      show ?L
      proof (intro allI impI)
        fix i j assume a: "i < length (x # xs) \<and> j < length (x # xs) \<and> P ((x # xs) ! i) \<and> Q ((x # xs) ! j)"
        then obtain j' where j: "j = Suc j'" using False by (cases j) auto
        show "i < j"
        proof (cases i)
          case 0
          then show ?thesis using j by simp
        next
          case (Suc i')
          then have "i' < j'" using R[rule_format, of i' j'] a j by simp
          then show ?thesis using Suc j by simp
        qed
      qed
    qed
    then show ?thesis using False Cons.IH by simp
  qed
qed

lemma precedes_append:
  "\<forall>x\<in>set xs. \<not> Q x \<Longrightarrow> \<forall>y\<in>set ys. \<not> P y \<Longrightarrow> precedes P Q (xs @ ys)"
proof (induction xs)
  case Nil
  then show ?case by (induction ys) (auto simp: list_all_iff)
next
  case (Cons x xs)
  then show ?case by simp
qed

section \<open>Registration\<close>

lemma fatal_events:
  "slogFatalContext ctx msg er \<noteq> []"
  "last (slogFatalContext ctx msg er) = Exit 1"
  "launched (slogFatalContext ctx msg er) = []"
  "called (slogFatalContext ctx msg er) = []"
  by (simp_all add: slogFatalContext_def launched_def called_def List.map_filter_simps split: option.splits)

lemma AddServer_fatal:
  "AddServer b srv = Inl t \<Longrightarrow> \<exists>msg er. t = slogFatal msg er"
  by (auto simp: AddServer_def split: sum.splits prod.splits if_splits)

lemma AddJob_fatal:
  "AddJob b n d f = Inl t \<Longrightarrow> \<exists>msg er. t = slogFatal msg er"
  by (auto simp: AddJob_def split: if_splits)

lemma do_call_fatal:
  "do_call b c = Inl t \<Longrightarrow> \<exists>msg er. t = slogFatal msg er"
  by (cases c) (auto simp: AddJobAndOnStartup_def dest: AddServer_fatal AddJob_fatal split: sum.splits)

lemma configure_fatal:
  "configure b cs = Inl t \<Longrightarrow> \<exists>msg er. t = slogFatal msg er"
  by (induction cs arbitrary: b) (auto dest: do_call_fatal split: sum.splits)

lemma bootstrap_fatal:
  "bootstrap e cfg = Inl t \<Longrightarrow> \<exists>msg er. t = slogFatal msg er"
  by (auto simp: bootstrap_def addDebugServer_def dest: configure_fatal AddServer_fatal split: sum.splits option.splits)

lemma AddServer_port:
  "AddServer b srv = Inr b' \<Longrightarrow> \<exists>p. port_of srv = Some p \<and> map_of (servers b) p = None \<and> b' = b\<lparr>servers := servers b @ [(p, srv)]\<rparr>"
  by (auto simp: AddServer_def port_of_def split: sum.splits prod.splits if_splits)

lemma map_of_snoc:
  "map_of xs k = None \<Longrightarrow> map_of (xs @ [(k, v)]) = (map_of xs)(k \<mapsto> v)"
  by (rule ext) (auto simp: map_add_def split: option.splits)

text \<open>
  C6.  A server whose port is already registered, and a job whose name is already
  registered, are rejected: the registration logs the cause at error level and exits
  with status 1.  A registration under a fresh key, by \<^verbatim>\<open>AddServer\<close>,
  \<^verbatim>\<open>AddJob\<close> or \<^verbatim>\<open>AddJobAndOnStartup\<close>, returns the registry with exactly
  that entry added to its map: every other key of the map is bound as before and the
  other fields are untouched, but for the list of startup jobs, to which
  \<^verbatim>\<open>AddJobAndOnStartup\<close> appends the job it has registered.  When a registration
  made by the configuration function (or the registration of the debug server) is
  rejected, the run ends there: no startup job is called and no goroutine is launched.
\<close>

theorem C6_duplicate_keys_rejected:
  "(port_of srv = Some p \<and> map_of (servers b) p \<noteq> None \<longrightarrow>
      AddServer b srv =
        Inl [Log LevelError [] ''server already added''
               [(''error'', AnyValue (Failure ''server already added''))], Exit 1])
   \<and> (map_of (jobs b) n \<noteq> None \<longrightarrow>
      AddJob b n d f =
        Inl [Log LevelError [] ''job already added''
               [(''error'', AnyValue (Failure ''job already added''))], Exit 1]
      \<and> AddJobAndOnStartup b n d f = AddJob b n d f)
   \<and> (port_of srv = Some p \<and> map_of (servers b) p = None \<longrightarrow>
      AddServer b srv = Inr (b\<lparr>servers := servers b @ [(p, srv)]\<rparr>)
      \<and> map_of (servers b @ [(p, srv)]) = (map_of (servers b))(p \<mapsto> srv))
   \<and> (map_of (jobs b) n = None \<longrightarrow>
      AddJob b n d f = Inr (b\<lparr>jobs := jobs b @ [(n, \<lparr>name = n, interval = d, fn = f\<rparr>)]\<rparr>)
      \<and> AddJobAndOnStartup b n d f =
          Inr (b\<lparr>jobs := jobs b @ [(n, \<lparr>name = n, interval = d, fn = f\<rparr>)],
                 startupJobs := startupJobs b @ [\<lparr>name = n, interval = d, fn = f\<rparr>]\<rparr>)
      \<and> map_of (jobs b @ [(n, \<lparr>name = n, interval = d, fn = f\<rparr>)])
          = (map_of (jobs b))(n \<mapsto> \<lparr>name = n, interval = d, fn = f\<rparr>))
   \<and> (bootstrap e cfg = Inl t \<longrightarrow>
      Run e nm cfg = [SetDefault nm, Log LevelInfo [] ''starting service...'' []] @ t
      \<and> last (Run e nm cfg) = Exit 1
      \<and> launched (Run e nm cfg) = [] \<and> called (Run e nm cfg) = [])"
proof (intro conjI impI)
  assume "port_of srv = Some p \<and> map_of (servers b) p \<noteq> None"
  then show "AddServer b srv =
        Inl [Log LevelError [] ''server already added''
               [(''error'', AnyValue (Failure ''server already added''))], Exit 1]"
    by (auto simp: AddServer_def port_of_def slogFatal_def slogFatalContext_def split: sum.splits prod.splits)
next
  assume "map_of (jobs b) n \<noteq> None"
  then show "AddJob b n d f =
        Inl [Log LevelError [] ''job already added''
               [(''error'', AnyValue (Failure ''job already added''))], Exit 1]"
    and "AddJobAndOnStartup b n d f = AddJob b n d f"
    by (auto simp: AddJob_def AddJobAndOnStartup_def slogFatal_def slogFatalContext_def)
next
  assume a: "port_of srv = Some p \<and> map_of (servers b) p = None"
  then show "AddServer b srv = Inr (b\<lparr>servers := servers b @ [(p, srv)]\<rparr>)"
    by (auto simp: AddServer_def port_of_def split: sum.splits prod.splits)
  from a have "map_of (servers b) p = None" by simp
  then show "map_of (servers b @ [(p, srv)]) = (map_of (servers b))(p \<mapsto> srv)"
    by (rule map_of_snoc)
next
  assume a: "map_of (jobs b) n = None"
  then show "AddJob b n d f = Inr (b\<lparr>jobs := jobs b @ [(n, \<lparr>name = n, interval = d, fn = f\<rparr>)]\<rparr>)"
    by (simp add: AddJob_def)
  from a show "AddJobAndOnStartup b n d f =
          Inr (b\<lparr>jobs := jobs b @ [(n, \<lparr>name = n, interval = d, fn = f\<rparr>)],
                 startupJobs := startupJobs b @ [\<lparr>name = n, interval = d, fn = f\<rparr>]\<rparr>)"
    by (simp add: AddJobAndOnStartup_def AddJob_def map_add_def)
  from a show "map_of (jobs b @ [(n, \<lparr>name = n, interval = d, fn = f\<rparr>)])
          = (map_of (jobs b))(n \<mapsto> \<lparr>name = n, interval = d, fn = f\<rparr>)"
    by (rule map_of_snoc)
next
  assume a: "bootstrap e cfg = Inl t"
  then obtain msg er where t: "t = slogFatal msg er" using bootstrap_fatal by blast
  from a show r: "Run e nm cfg = [SetDefault nm, Log LevelInfo [] ''starting service...'' []] @ t"
    by (simp add: Run_def)
  show "last (Run e nm cfg) = Exit 1"
    unfolding r t slogFatal_def using fatal_events(1,2) by simp
  show "launched (Run e nm cfg) = []"
    unfolding r t slogFatal_def slogFatalContext_def by (simp add: launched_def List.map_filter_simps split: option.splits)
  show "called (Run e nm cfg) = []"
    unfolding r t slogFatal_def slogFatalContext_def by (simp add: called_def List.map_filter_simps split: option.splits)
qed

theorem C6_duplicate_keys_rejected_witness:
  "AddServer ex_registry \<lparr>Addr = ''localhost:8080'', Handler = ''web''\<rparr> =
     Inl [Log LevelError [] ''server already added''
            [(''error'', AnyValue (Failure ''server already added''))], Exit 1]
   \<and> AddJob ex_registry ''beat'' 7 ''g'' =
     Inl [Log LevelError [] ''job already added''
            [(''error'', AnyValue (Failure ''job already added''))], Exit 1]
   \<and> AddServer ex_registry \<lparr>Addr = '':9090'', Handler = ''web''\<rparr> =
     Inr (ex_registry\<lparr>servers := servers ex_registry @ [(9090, \<lparr>Addr = '':9090'', Handler = ''web''\<rparr>)]\<rparr>)
   \<and> AddJob ex_registry ''sweep'' 7 ''g'' =
     Inr (ex_registry\<lparr>jobs := jobs ex_registry @ [(''sweep'', \<lparr>name = ''sweep'', interval = 7, fn = ''g''\<rparr>)]\<rparr>)
   \<and> AddJobAndOnStartup ex_registry ''sweep'' 7 ''g'' =
     Inr (ex_registry\<lparr>jobs := jobs ex_registry @ [(''sweep'', \<lparr>name = ''sweep'', interval = 7, fn = ''g''\<rparr>)],
                      startupJobs := startupJobs ex_registry @ [\<lparr>name = ''sweep'', interval = 7, fn = ''g''\<rparr>]\<rparr>)
   \<and> AddJobAndOnStartup ex_registry ''beat'' 7 ''g'' =
     Inl [Log LevelError [] ''job already added''
            [(''error'', AnyValue (Failure ''job already added''))], Exit 1]
   \<and> launched (Run ex_env ''svc''
        \<lparr>calls = [Call_AddJob ''beat'' 5 ''f'', Call_AddJob ''beat'' 7 ''g''], returns = None\<rparr>) = []"
proof -
  have p1: "port_of \<lparr>Addr = ''localhost:8080'', Handler = ''web''\<rparr> = Some 8080"
    by code_simp
  have p2: "port_of \<lparr>Addr = '':9090'', Handler = ''web''\<rparr> = Some 9090"
    by code_simp
  have s1: "map_of (servers ex_registry) 8080 \<noteq> None" "map_of (servers ex_registry) 9090 = None"
    by (simp_all add: ex_registry_def)
  have j1: "map_of (jobs ex_registry) ''beat'' \<noteq> None" "map_of (jobs ex_registry) ''sweep'' = None"
    by (simp_all add: ex_registry_def)
  have b: "bootstrap ex_env
      \<lparr>calls = [Call_AddJob ''beat'' 5 ''f'', Call_AddJob ''beat'' 7 ''g''], returns = None\<rparr>
    = Inl [Log LevelError [] ''job already added''
             [(''error'', AnyValue (Failure ''job already added''))], Exit 1]"
    by (simp add: bootstrap_def new_Bootstrapper_def AddJob_def slogFatal_def slogFatalContext_def)
  show ?thesis
    using C6_duplicate_keys_rejected
            [of "\<lparr>Addr = ''localhost:8080'', Handler = ''web''\<rparr>" 8080 ex_registry "''beat''" 7 "''g''"
                ex_env "\<lparr>calls = [Call_AddJob ''beat'' 5 ''f'', Call_AddJob ''beat'' 7 ''g''], returns = None\<rparr>"
                "[Log LevelError [] ''job already added''
                    [(''error'', AnyValue (Failure ''job already added''))], Exit 1]" "''svc''"]
          C6_duplicate_keys_rejected
            [of "\<lparr>Addr = '':9090'', Handler = ''web''\<rparr>" 9090 ex_registry "''sweep''" 7 "''g''"
                ex_env "\<lparr>calls = [Call_AddJob ''beat'' 5 ''f'', Call_AddJob ''beat'' 7 ''g''], returns = None\<rparr>"
                "[Log LevelError [] ''job already added''
                    [(''error'', AnyValue (Failure ''job already added''))], Exit 1]" "''svc''"]
          p1 p2 s1 j1 b
    by simp
qed

section \<open>Startup jobs\<close>

lemma map_filter_append:
  "List.map_filter g (xs @ ys) = List.map_filter g xs @ List.map_filter g ys"
  by (simp add: List.map_filter_def)

lemma launched_append: "launched (xs @ ys) = launched xs @ launched ys"
  by (simp add: launched_def map_filter_append)

lemma called_append: "called (xs @ ys) = called xs @ called ys"
  by (simp add: called_def map_filter_append)

lemma launched_Cons:
  "launched (ev # tr) = (case ev of Go u \<Rightarrow> u # launched tr | _ \<Rightarrow> launched tr)"
  by (simp add: launched_def List.map_filter_simps split: event.splits)

lemma called_Cons:
  "called (ev # tr) = (case ev of CallFn f a \<Rightarrow> (f, a) # called tr | _ \<Rightarrow> called tr)"
  by (simp add: called_def List.map_filter_simps split: event.splits)

lemma launched_Nil: "launched [] = []" by (simp add: launched_def List.map_filter_simps)
lemma called_Nil: "called [] = []" by (simp add: called_def List.map_filter_simps)

lemma AddJob_startupJobs:
  "AddJob b n d f = Inr b' \<Longrightarrow>
     startupJobs b' = startupJobs b \<and> map_of (jobs b') n = Some \<lparr>name = n, interval = d, fn = f\<rparr>"
  by (auto simp: AddJob_def map_add_def split: if_splits)

lemma do_call_startupJobs:
  "do_call b c = Inr b' \<Longrightarrow> startupJobs b' = startupJobs b @ startup_jobs_of [c]"
  by (cases c)
     (auto simp: AddJobAndOnStartup_def Defer_def AddJob_def map_add_def dest!: AddServer_port
           split: sum.splits if_splits)

lemma startup_jobs_of_Cons: "startup_jobs_of (c # cs) = startup_jobs_of [c] @ startup_jobs_of cs"
  by (cases c) simp_all

lemma configure_startupJobs:
  "configure b cs = Inr b' \<Longrightarrow> startupJobs b' = startupJobs b @ startup_jobs_of cs"
proof (induction cs arbitrary: b)
  case Nil
  then show ?case by simp
next
  case (Cons c cs)
  from Cons.prems obtain b1 where 1: "do_call b c = Inr b1" and 2: "configure b1 cs = Inr b'"
    by (auto split: sum.splits)
  from Cons.IH[OF 2] do_call_startupJobs[OF 1] show ?case
    using startup_jobs_of_Cons[of c cs] by simp
qed

lemma bootstrap_startupJobs:
  assumes "bootstrap e cfg = Inr b"
  shows "startupJobs b = startup_jobs_of (calls cfg)"
proof -
  from assms obtain b0 where 0: "configure new_Bootstrapper (calls cfg) = Inr b0"
    and 1: "addDebugServer (getenv_DEBUG_PORT e) b0 = Inr b"
    by (auto simp: bootstrap_def split: sum.splits option.splits)
  from 1 have "startupJobs b = startupJobs b0"
    by (auto simp: addDebugServer_def dest!: AddServer_port)
  with configure_startupJobs[OF 0] show ?thesis by (simp add: new_Bootstrapper_def)
qed

lemma startup_all_ok:
  "\<forall>j\<in>set js. res (name j) = None \<Longrightarrow> startup res js = Inr (concat (map invoke_ok js))"
  by (induction js) (simp_all add: invoke_ok_def)

lemma startup_first_failure:
  "k < length js \<Longrightarrow> res (name (js ! k)) = Some er \<Longrightarrow> \<forall>i<k. res (name (js ! i)) = None \<Longrightarrow>
   startup res js =
     Inl (concat (map invoke_ok (take k js)) @
          [CallFn (fn (js ! k)) [(''job'', StringValue (name (js ! k)))],
           RetFn (fn (js ! k)) (Some er),
           Log LevelError [(''job'', StringValue (name (js ! k)))] ''failed to run startup job''
             [(''error'', AnyValue er)],
           Exit 1])"
proof (induction js arbitrary: k)
  case Nil
  then show ?case by simp
next
  case (Cons j js)
  show ?case
  proof (cases k)
    case 0
    with Cons.prems show ?thesis by (simp add: slogFatalContext_def Let_def)
  next
    case (Suc k')
    have "res (name j) = None" using Cons.prems(3) Suc by auto
    moreover have "\<forall>i<k'. res (name (js ! i)) = None" using Cons.prems(3) Suc by auto
    ultimately show ?thesis using Cons.IH[of k'] Cons.prems Suc by (simp add: invoke_ok_def)
  qed
qed

lemma launch_servers_events:
  "ev \<in> set (launch_servers b) \<Longrightarrow> ev = WgAdd \<or> (\<exists>p. ev = Go (ServerUnit p))"
  by (auto simp: launch_servers_def split: if_splits)

lemma launch_jobs_events:
  "ev \<in> set (launch_jobs e b) \<Longrightarrow> ev = WgAdd \<or> (\<exists>n. ev = Go (JobUnit n))"
  by (auto simp: launch_jobs_def split: if_splits)

lemma shutdown_server_events:
  "ev \<in> set (shutdown_server e p) \<Longrightarrow>
     ev = Shutdown p \<or> ev = Close p \<or> (\<exists>m a. ev = Log LevelWarn [] m a)"
  by (auto simp: shutdown_server_def split: option.splits)

lemma shutdown_no_job_event: "ev \<in> set (shutdown e b) \<Longrightarrow> \<not> is_job_event ev \<and> \<not> is_Go ev"
  by (auto simp: shutdown_def CancelFunc_def dest!: shutdown_server_events)

lemma serve_no_job_event: "ev \<in> set (serve e b) \<Longrightarrow> \<not> is_job_event ev"
  by (auto simp: serve_def dest!: launch_servers_events launch_jobs_events shutdown_no_job_event
           split: option.splits)

lemma invoke_ok_no_Go: "\<forall>ev\<in>set (concat (map invoke_ok js)). \<not> is_Go ev"
  by (auto simp: invoke_ok_def)

lemma called_invoke_ok:
  "called (concat (map invoke_ok js)) = map (\<lambda>j. (fn j, [(''job'', StringValue (name j))])) js"
  by (induction js) (simp_all add: called_append called_Cons called_Nil invoke_ok_def)

lemma called_serve: "called (serve e b) = []"
proof -
  have "\<And>tr. (\<forall>ev\<in>set tr. \<not> is_job_event ev) \<Longrightarrow> called tr = []"
  proof -
    fix tr show "(\<forall>ev\<in>set tr. \<not> is_job_event ev) \<Longrightarrow> called tr = []"
      by (induction tr) (auto simp: called_Cons called_Nil split: event.splits)
  qed
  then show ?thesis using serve_no_job_event by blast
qed

lemma launched_invoke_ok: "launched (concat (map invoke_ok js)) = []"
  by (induction js) (simp_all add: launched_append launched_Cons launched_Nil invoke_ok_def)

lemma startup_success_trace:
  assumes "bootstrap e cfg = Inr b"
    and ok: "\<forall>j\<in>set (startupJobs b). startup_result e (name j) = None"
  shows "Run e nm cfg =
           [SetDefault nm, Log LevelInfo [] ''starting service...'' []] @
           concat (map invoke_ok (startupJobs b)) @ serve e b"
    and "called (Run e nm cfg) =
           map (\<lambda>j. (fn j, [(''job'', StringValue (name j))])) (startupJobs b)"
    and "precedes is_job_event is_Go (Run e nm cfg)"
proof -
  show r: "Run e nm cfg =
           [SetDefault nm, Log LevelInfo [] ''starting service...'' []] @
           concat (map invoke_ok (startupJobs b)) @ serve e b"
    using assms startup_all_ok[OF ok] by (simp add: Run_def)
  show "called (Run e nm cfg) =
           map (\<lambda>j. (fn j, [(''job'', StringValue (name j))])) (startupJobs b)"
    unfolding r by (simp add: called_append called_Cons called_Nil called_invoke_ok called_serve)
  have "precedes is_job_event is_Go
          (([SetDefault nm, Log LevelInfo [] ''starting service...'' []] @
            concat (map invoke_ok (startupJobs b))) @ serve e b)"
  proof (rule precedes_append)
    show "\<forall>x\<in>set ([SetDefault nm, Log LevelInfo [] ''starting service...'' []] @
            concat (map invoke_ok (startupJobs b))). \<not> is_Go x"
      using invoke_ok_no_Go[of "startupJobs b"] by simp
    show "\<forall>y\<in>set (serve e b). \<not> is_job_event y"
      using serve_no_job_event by blast
  qed
  then show "precedes is_job_event is_Go (Run e nm cfg)"
    unfolding r by simp
qed

lemma startup_failure_trace:
  assumes "bootstrap e cfg = Inr b"
    and k: "k < length (startupJobs b)"
    and er: "startup_result e (name (startupJobs b ! k)) = Some er"
    and before: "\<forall>i<k. startup_result e (name (startupJobs b ! i)) = None"
  shows "Run e nm cfg =
           [SetDefault nm, Log LevelInfo [] ''starting service...'' []] @
           concat (map invoke_ok (take k (startupJobs b))) @
           [CallFn (fn (startupJobs b ! k)) [(''job'', StringValue (name (startupJobs b ! k)))],
            RetFn (fn (startupJobs b ! k)) (Some er),
            Log LevelError [(''job'', StringValue (name (startupJobs b ! k)))]
              ''failed to run startup job'' [(''error'', AnyValue er)],
            Exit 1]"
    and "called (Run e nm cfg) =
           map (\<lambda>j. (fn j, [(''job'', StringValue (name j))])) (take (Suc k) (startupJobs b))"
    and "launched (Run e nm cfg) = []"
proof -
  show r: "Run e nm cfg =
           [SetDefault nm, Log LevelInfo [] ''starting service...'' []] @
           concat (map invoke_ok (take k (startupJobs b))) @
           [CallFn (fn (startupJobs b ! k)) [(''job'', StringValue (name (startupJobs b ! k)))],
            RetFn (fn (startupJobs b ! k)) (Some er),
            Log LevelError [(''job'', StringValue (name (startupJobs b ! k)))]
              ''failed to run startup job'' [(''error'', AnyValue er)],
            Exit 1]"
    using assms(1) startup_first_failure[OF k er before] by (simp add: Run_def)
  show "called (Run e nm cfg) =
           map (\<lambda>j. (fn j, [(''job'', StringValue (name j))])) (take (Suc k) (startupJobs b))"
    unfolding r using k
    by (simp add: called_append called_Cons called_Nil called_invoke_ok take_Suc_conv_app_nth)
  show "launched (Run e nm cfg) = []"
    unfolding r by (simp add: launched_append launched_Cons launched_Nil launched_invoke_ok)
qed

text \<open>
  C2.  The startup jobs are the jobs registered with \<^verbatim>\<open>AddJobAndOnStartup\<close>, in
  the order of registration.  When all of them succeed, \<open>Run\<close> calls each once, in that
  order, each call returning before the next begins, and every call and return stands
  before the first launch of a goroutine.  When job \<open>k\<close> is the first to return an
  error, the jobs before it have run, the failure is logged with the job's name, the
  process exits with status 1, the later startup jobs are never called and no
  goroutine is launched.
\<close>

theorem C2_startup_jobs_first:
  assumes "bootstrap e cfg = Inr b"
  shows "startupJobs b = startup_jobs_of (calls cfg)
    \<and> ((\<forall>j\<in>set (startupJobs b). startup_result e (name j) = None) \<longrightarrow>
           Run e nm cfg =
             [SetDefault nm, Log LevelInfo [] ''starting service...'' []] @
             concat (map invoke_ok (startupJobs b)) @ serve e b
           \<and> called (Run e nm cfg) =
               map (\<lambda>j. (fn j, [(''job'', StringValue (name j))])) (startupJobs b)
           \<and> precedes is_job_event is_Go (Run e nm cfg))
    \<and> (k < length (startupJobs b) \<and> startup_result e (name (startupJobs b ! k)) = Some er
           \<and> (\<forall>i<k. startup_result e (name (startupJobs b ! i)) = None) \<longrightarrow>
           Run e nm cfg =
             [SetDefault nm, Log LevelInfo [] ''starting service...'' []] @
             concat (map invoke_ok (take k (startupJobs b))) @
             [CallFn (fn (startupJobs b ! k)) [(''job'', StringValue (name (startupJobs b ! k)))],
              RetFn (fn (startupJobs b ! k)) (Some er),
              Log LevelError [(''job'', StringValue (name (startupJobs b ! k)))]
                ''failed to run startup job'' [(''error'', AnyValue er)],
              Exit 1]
           \<and> called (Run e nm cfg) =
               map (\<lambda>j. (fn j, [(''job'', StringValue (name j))])) (take (Suc k) (startupJobs b))
           \<and> launched (Run e nm cfg) = [])"
  using bootstrap_startupJobs[OF assms] startup_success_trace[OF assms]
    startup_failure_trace[OF assms]
  by blast

lemma ex_bootstrap: "bootstrap (ex_env\<lparr>startup_result := r\<rparr>) ex_config = Inr ex_bootstrapped"
  by (simp add: bootstrap_def ex_env_def ex_config_def ex_bootstrapped_def new_Bootstrapper_def 
     AddServer_def AddJob_def AddJobAndOnStartup_def Defer_def addDebugServer_def cmp_Or_def
     SplitHostPort_def LastIndexByte_def split_rest_def Atoi_def is_digit_def)

theorem C2_startup_jobs_first_witness:
  "called (Run ex_env ''svc'' ex_config) =
     [(''f1'', [(''job'', StringValue ''warm'')]), (''f2'', [(''job'', StringValue ''load'')])]
   \<and> precedes is_job_event is_Go (Run ex_env ''svc'' ex_config)
   \<and> Run (ex_env\<lparr>startup_result := (\<lambda>n. if n = ''load'' then Some (Failure ''no database'') else None)\<rparr>)
        ''svc'' ex_config =
     [SetDefault ''svc'', Log LevelInfo [] ''starting service...'' [],
      CallFn ''f1'' [(''job'', StringValue ''warm'')], RetFn ''f1'' None,
      CallFn ''f2'' [(''job'', StringValue ''load'')], RetFn ''f2'' (Some (Failure ''no database'')),
      Log LevelError [(''job'', StringValue ''load'')] ''failed to run startup job''
        [(''error'', AnyValue (Failure ''no database''))],
      Exit 1]
   \<and> launched (Run (ex_env\<lparr>startup_result := (\<lambda>n. if n = ''load'' then Some (Failure ''no database'') else None)\<rparr>)
        ''svc'' ex_config) = []"
proof -
  have b1: "bootstrap ex_env ex_config = Inr ex_bootstrapped"
    using ex_bootstrap[of "startup_result ex_env"] by simp
  have ok: "\<forall>j\<in>set (startupJobs ex_bootstrapped). startup_result ex_env (name j) = None"
    by (simp add: ex_env_def)
  let ?e = "ex_env\<lparr>startup_result := (\<lambda>n. if n = ''load'' then Some (Failure ''no database'') else None)\<rparr>"
  have b2: "bootstrap ?e ex_config = Inr ex_bootstrapped"
    by (rule ex_bootstrap)
  have f: "1 < length (startupJobs ex_bootstrapped)
      \<and> startup_result ?e (name (startupJobs ex_bootstrapped ! 1)) = Some (Failure ''no database'')
      \<and> (\<forall>i<1. startup_result ?e (name (startupJobs ex_bootstrapped ! i)) = None)"
    by (simp add: ex_bootstrapped_def)
  from C2_startup_jobs_first[OF b1, of "''svc''" 0 Canceled] ok
  have 1: "called (Run ex_env ''svc'' ex_config) =
             map (\<lambda>j. (fn j, [(''job'', StringValue (name j))])) (startupJobs ex_bootstrapped)"
    and 2: "precedes is_job_event is_Go (Run ex_env ''svc'' ex_config)"
    by blast+
  from C2_startup_jobs_first[OF b2, of "''svc''" 1 "Failure ''no database''"] f
  have 3: "Run ?e ''svc'' ex_config =
             [SetDefault ''svc'', Log LevelInfo [] ''starting service...'' []] @
             concat (map invoke_ok (take 1 (startupJobs ex_bootstrapped))) @
             [CallFn (fn (startupJobs ex_bootstrapped ! 1)) [(''job'', StringValue (name (startupJobs ex_bootstrapped ! 1)))],
              RetFn (fn (startupJobs ex_bootstrapped ! 1)) (Some (Failure ''no database'')),
              Log LevelError [(''job'', StringValue (name (startupJobs ex_bootstrapped ! 1)))]
                ''failed to run startup job'' [(''error'', AnyValue (Failure ''no database''))],
              Exit 1]"
    and 4: "launched (Run ?e ''svc'' ex_config) = []"
    by blast+
  from 1 2 3 4 show ?thesis
    by (simp add: ex_bootstrapped_def invoke_ok_def)
qed

section \<open>The registry after the configuration phase\<close>

lemma precedes_no_P: "\<forall>y\<in>set ys. \<not> P y \<Longrightarrow> precedes P Q ys"
  by (induction ys) (auto simp: list_all_iff)

lemma precedes_no_Q: "\<forall>y\<in>set ys. \<not> Q y \<Longrightarrow> precedes P Q ys"
  by (induction ys) auto

lemma precedes_append_iff:
  "precedes P Q (xs @ ys) \<longleftrightarrow>
     precedes P Q xs \<and> precedes P Q ys \<and> ((\<exists>x\<in>set xs. Q x) \<longrightarrow> (\<forall>y\<in>set ys. \<not> P y))"
proof (induction xs)
  case Nil
  then show ?case by simp
next
  case (Cons x xs)
  show ?case
  proof (cases "Q x")
    case True
    then show ?thesis using precedes_no_P[of ys P Q] by (auto simp: list_all_iff)
  next
    case False
    then show ?thesis using Cons.IH by simp
  qed
qed

lemma run_served:
  "bootstrap e cfg = Inr b \<Longrightarrow> startup (startup_result e) (startupJobs b) = Inr t \<Longrightarrow>
   Run e nm cfg = [SetDefault nm, Log LevelInfo [] ''starting service...'' []] @ t @ serve e b"
  by (simp add: Run_def)

lemma startup_events:
  "startup res js = Inr t \<Longrightarrow> ev \<in> set t \<Longrightarrow> is_job_event ev"
proof (induction js arbitrary: t)
  case Nil
  then show ?case by simp
next
  case (Cons j js)
  then show ?case by (auto simp: Let_def split: option.splits sum.splits)
qed

lemma AddJob_keys:
  "AddJob b n d f = Inr b' \<Longrightarrow>
     map_of (jobs b) n = None \<and> jobs b' = jobs b @ [(n, \<lparr>name = n, interval = d, fn = f\<rparr>)]
     \<and> servers b' = servers b \<and> deferFns b' = deferFns b"
  by (auto simp: AddJob_def split: if_splits)

lemma do_call_distinct:
  assumes "do_call b c = Inr b'"
    and "distinct (map fst (servers b))" and "distinct (map fst (jobs b))"
  shows "distinct (map fst (servers b')) \<and> distinct (map fst (jobs b'))"
proof (cases c)
  case (Call_AddServer srv)
  with assms(1) have "AddServer b srv = Inr b'" by simp
  from AddServer_port[OF this]
  obtain p where "map_of (servers b) p = None" "b' = b\<lparr>servers := servers b @ [(p, srv)]\<rparr>"
    by blast
  then show ?thesis using assms(2,3) by (auto simp: map_of_eq_None_iff)
next
  case (Call_AddJob n d f)
  with assms(1) have "AddJob b n d f = Inr b'" by simp
  from AddJob_keys[OF this]
  have "map_of (jobs b) n = None" "jobs b' = jobs b @ [(n, \<lparr>name = n, interval = d, fn = f\<rparr>)]"
    "servers b' = servers b"
    by blast+
  then show ?thesis using assms(2,3) by (auto simp: map_of_eq_None_iff)
next
  case (Call_AddJobAndOnStartup n d f)
  with assms(1) obtain b1 where 1: "AddJob b n d f = Inr b1" and 2: "servers b' = servers b1" "jobs b' = jobs b1"
    by (auto simp: AddJobAndOnStartup_def split: sum.splits)
  from AddJob_keys[OF 1] 2 show ?thesis using assms(2,3) by (auto simp: map_of_eq_None_iff)
next
  case (Call_Defer f)
  with assms show ?thesis by (auto simp: Defer_def)
qed

lemma configure_distinct:
  "configure b cs = Inr b' \<Longrightarrow> distinct (map fst (servers b)) \<Longrightarrow> distinct (map fst (jobs b)) \<Longrightarrow>
   distinct (map fst (servers b')) \<and> distinct (map fst (jobs b'))"
proof (induction cs arbitrary: b)
  case Nil
  then show ?case by simp
next
  case (Cons c cs)
  from Cons.prems(1) obtain b1 where 1: "do_call b c = Inr b1" and 2: "configure b1 cs = Inr b'"
    by (auto split: sum.splits)
  from do_call_distinct[OF 1 Cons.prems(2,3)] Cons.IH[OF 2] show ?case by blast
qed

lemma bootstrap_parts:
  assumes "bootstrap e cfg = Inr b"
  obtains b0 p where "configure new_Bootstrapper (calls cfg) = Inr b0" "returns cfg = None"
    "port_of (debug_server (getenv_DEBUG_PORT e)) = Some p" "map_of (servers b0) p = None"
    "b = b0\<lparr>servers := servers b0 @ [(p, debug_server (getenv_DEBUG_PORT e))]\<rparr>"
proof -
  from assms obtain b0 where 0: "configure new_Bootstrapper (calls cfg) = Inr b0"
    and r: "returns cfg = None"
    and 1: "AddServer b0 (debug_server (getenv_DEBUG_PORT e)) = Inr b"
    by (auto simp: bootstrap_def addDebugServer_def debug_server_def split: sum.splits option.splits)
  from AddServer_port[OF 1] obtain p where "port_of (debug_server (getenv_DEBUG_PORT e)) = Some p"
    "map_of (servers b0) p = None" "b = b0\<lparr>servers := servers b0 @ [(p, debug_server (getenv_DEBUG_PORT e))]\<rparr>"
    by blast
  with 0 r that show thesis by blast
qed

lemma bootstrap_distinct:
  assumes "bootstrap e cfg = Inr b"
  shows "distinct (map fst (servers b))" and "distinct (map fst (jobs b))"
proof -
  from assms obtain b0 p where 0: "configure new_Bootstrapper (calls cfg) = Inr b0"
    and p: "map_of (servers b0) p = None"
    and b: "b = b0\<lparr>servers := servers b0 @ [(p, debug_server (getenv_DEBUG_PORT e))]\<rparr>"
    by (rule bootstrap_parts)
  from configure_distinct[OF 0] have d: "distinct (map fst (servers b0))" "distinct (map fst (jobs b0))"
    by (simp_all add: new_Bootstrapper_def)
  show "distinct (map fst (servers b))" using d(1) p b by (auto simp: map_of_eq_None_iff)
  show "distinct (map fst (jobs b))" using d(2) b by simp
qed

lemma do_call_deferFns:
  "do_call b c = Inr b' \<Longrightarrow> deferFns b' = deferFns b @ defers_of [c]"
  by (cases c)
     (auto simp: AddJobAndOnStartup_def Defer_def AddJob_def dest!: AddServer_port
           split: sum.splits if_splits)

lemma defers_of_Cons: "defers_of (c # cs) = defers_of [c] @ defers_of cs"
  by (cases c) simp_all

lemma configure_deferFns:
  "configure b cs = Inr b' \<Longrightarrow> deferFns b' = deferFns b @ defers_of cs"
proof (induction cs arbitrary: b)
  case Nil
  then show ?case by simp
next
  case (Cons c cs)
  from Cons.prems obtain b1 where 1: "do_call b c = Inr b1" and 2: "configure b1 cs = Inr b'"
    by (auto split: sum.splits)
  from Cons.IH[OF 2] do_call_deferFns[OF 1] show ?case
    using defers_of_Cons[of c cs] by simp
qed

lemma bootstrap_deferFns:
  assumes "bootstrap e cfg = Inr b"
  shows "deferFns b = defers_of (calls cfg)"
proof -
  from assms obtain b0 p where 0: "configure new_Bootstrapper (calls cfg) = Inr b0"
    and b: "b = b0\<lparr>servers := servers b0 @ [(p, debug_server (getenv_DEBUG_PORT e))]\<rparr>"
    by (rule bootstrap_parts)
  from configure_deferFns[OF 0] b show ?thesis by (simp add: new_Bootstrapper_def)
qed

section \<open>The trace of a run that shuts down\<close>

lemma launched_servers_append:
  "launched_servers (xs @ ys) = launched_servers xs @ launched_servers ys"
  by (simp add: launched_servers_def map_filter_append)

lemma deferred_append: "deferred (xs @ ys) = deferred xs @ deferred ys"
  by (simp add: deferred_def map_filter_append)

lemma launched_servers_none:
  "\<forall>ev\<in>set tr. \<not> is_Go ev \<Longrightarrow> launched_servers tr = []"
  by (induction tr) (auto simp: launched_servers_def List.map_filter_simps split: event.splits unit_id.splits)

lemma launched_none:
  "\<forall>ev\<in>set tr. \<not> is_Go ev \<Longrightarrow> launched tr = []"
  by (induction tr) (auto simp: launched_def List.map_filter_simps split: event.splits)

lemma deferred_none:
  "\<forall>ev\<in>set tr. \<not> is_CallDefer ev \<Longrightarrow> deferred tr = []"
  by (induction tr) (auto simp: deferred_def List.map_filter_simps split: event.splits)

lemma deferred_CallDefer: "deferred (map CallDefer fs) = fs"
  by (induction fs) (simp_all add: deferred_def List.map_filter_simps)

lemma launched_go_units:
  "launched (concat (map (\<lambda>k. [WgAdd, Go (g k)]) ks)) = map g ks"
  by (induction ks) (simp_all add: launched_def List.map_filter_simps)

lemma launched_servers_server_units:
  "launched_servers (concat (map (\<lambda>k. [WgAdd, Go (ServerUnit k)]) ks)) = ks"
  by (induction ks) (simp_all add: launched_servers_def List.map_filter_simps)

lemma launched_servers_job_units:
  "launched_servers (concat (map (\<lambda>k. [WgAdd, Go (JobUnit k)]) ks)) = []"
  by (induction ks) (simp_all add: launched_servers_def List.map_filter_simps)

lemma count_go_units:
  "count_list (concat (map (\<lambda>k. [WgAdd, Go (g k)]) ks)) WgAdd = length ks"
  by (induction ks) simp_all

lemma range_keys_set: "set (range_keys rank m) = fst ` set m"
  by (simp add: range_keys_def)

lemma range_keys_distinct: "distinct (map fst m) \<Longrightarrow> distinct (range_keys rank m)"
  by (simp add: range_keys_def)

lemma range_keys_length: "length (range_keys rank m) = length m"
  by (simp add: range_keys_def)

lemma count_distinct: "distinct ks \<Longrightarrow> count_list ks k = (if k \<in> set ks then 1 else 0)"
  by (induction ks) auto

lemma count_shutdown:
  "count_list (concat (map (shutdown_server e) ks)) (Shutdown p) = count_list ks p"
  by (induction ks) (auto simp: shutdown_server_def split: option.splits)

lemma count_close:
  "count_list (concat (map (shutdown_server e) ks)) (Close p) =
     (if Shutdown_result e p = None then 0 else count_list ks p)"
  by (induction ks) (auto simp: shutdown_server_def split: option.splits)

lemma precedes_shutdown_close:
  "distinct ks \<Longrightarrow>
   precedes (\<lambda>ev. ev = Shutdown p) (\<lambda>ev. ev = Close p) (concat (map (shutdown_server e) ks))"
proof (induction ks)
  case Nil
  then show ?case by simp
next
  case (Cons k ks)
  have 1: "precedes (\<lambda>ev. ev = Shutdown p) (\<lambda>ev. ev = Close p) (shutdown_server e k)"
    by (auto simp: shutdown_server_def list_all_iff split: option.splits)
  have 2: "Close p \<in> set (shutdown_server e k) \<Longrightarrow> k = p"
    by (auto simp: shutdown_server_def split: option.splits)
  have 3: "Shutdown p \<in> set (concat (map (shutdown_server e) ks)) \<Longrightarrow> p \<in> set ks"
    by (auto dest!: shutdown_server_events)
  from Cons 1 2 3 show ?case by (auto simp: precedes_append_iff)
qed

text \<open>The trace of a run that reaches the shutdown, in its parts.\<close>

lemma run_shutdown_trace:
  assumes "bootstrap e cfg = Inr b"
    and "startup (startup_result e) (startupJobs b) = Inr t"
    and "signal_at e = Some ts"
  shows "Run e nm cfg =
     ([SetDefault nm, Log LevelInfo [] ''starting service...'' []] @ t) @
     (launch_servers b @ launch_jobs e b) @
     [SignalNotify, SignalReceived, Log LevelInfo [] ''received shutdown signal'' [],
      Log LevelInfo [] ''stopping jobs'' [], TokenCancelled,
      Log LevelInfo [] ''shutting down server...'' []] @
     concat (map (shutdown_server e) (range_keys (servers_rank e) (servers b))) @
     [Log LevelInfo [] ''waiting for jobs to finish'' [], WgWait] @
     map CallDefer (deferFns b) @
     [Log LevelInfo [] ''bye!'' []]"
  using assms by (simp add: Run_def serve_def shutdown_def CancelFunc_def)

lemma job_event_kinds:
  "is_job_event ev \<Longrightarrow>
     \<not> is_Go ev \<and> \<not> is_Shutdown ev \<and> \<not> is_CallDefer ev \<and> ev \<noteq> WgAdd \<and> ev \<noteq> WgWait
     \<and> ev \<noteq> TokenCancelled \<and> ev \<noteq> SignalReceived \<and> ev \<noteq> Close p \<and> ev \<noteq> Shutdown p"
  by (cases ev) simp_all

lemma launch_events:
  "ev \<in> set (launch_servers b @ launch_jobs e b) \<Longrightarrow>
     (ev = WgAdd \<or> is_Go ev) \<and> \<not> is_Shutdown ev \<and> \<not> is_CallDefer ev \<and> ev \<noteq> WgWait
     \<and> ev \<noteq> TokenCancelled \<and> ev \<noteq> SignalReceived \<and> ev \<noteq> Close p \<and> ev \<noteq> Shutdown p"
  by (auto dest!: launch_servers_events launch_jobs_events)

lemma shutdown_servers_events:
  "ev \<in> set (concat (map (shutdown_server e) ks)) \<Longrightarrow>
     \<not> is_Go ev \<and> \<not> is_CallDefer ev \<and> ev \<noteq> WgAdd \<and> ev \<noteq> WgWait
     \<and> ev \<noteq> TokenCancelled \<and> ev \<noteq> SignalReceived"
  by (auto dest!: shutdown_server_events)

lemma CallDefer_events:
  "ev \<in> set (map CallDefer fs) \<Longrightarrow>
     is_CallDefer ev \<and> \<not> is_Go ev \<and> \<not> is_Shutdown ev \<and> ev \<noteq> WgAdd \<and> ev \<noteq> WgWait
     \<and> ev \<noteq> TokenCancelled \<and> ev \<noteq> SignalReceived \<and> ev \<noteq> Close p \<and> ev \<noteq> Shutdown p"
  by auto

lemma count_absent: "x \<notin> set xs \<Longrightarrow> count_list xs x = 0"
  by (induction xs) auto

lemma run_shutdown_parts:
  assumes "bootstrap e cfg = Inr b"
    and "startup (startup_result e) (startupJobs b) = Inr t"
    and "signal_at e = Some ts"
  shows "Run e nm cfg =
     before_cancel e nm b t @
     [TokenCancelled, Log LevelInfo [] ''shutting down server...'' []] @
     shutdown_servers e b @
     [Log LevelInfo [] ''waiting for jobs to finish'' [], WgWait] @
     map CallDefer (deferFns b) @
     [Log LevelInfo [] ''bye!'' []]"
  using run_shutdown_trace[OF assms] by (simp add: before_cancel_def shutdown_servers_def)

lemma before_cancel_events:
  assumes "startup res js = Inr t" and "ev \<in> set (before_cancel e nm b t)"
  shows "\<not> is_Shutdown ev \<and> \<not> is_CallDefer ev \<and> ev \<noteq> WgWait \<and> ev \<noteq> TokenCancelled
     \<and> ev \<noteq> Close p \<and> ev \<noteq> Shutdown p"
proof -
  have "ev \<in> set t \<Longrightarrow> ?thesis"
    using startup_events[OF assms(1), of ev] job_event_kinds[of ev p] by blast
  moreover have "ev \<notin> set t \<Longrightarrow> ?thesis"
    using assms(2) by (auto simp: before_cancel_def dest!: launch_servers_events launch_jobs_events)
  ultimately show ?thesis by blast
qed

lemma shutdown_servers_kinds:
  "ev \<in> set (shutdown_servers e b) \<Longrightarrow>
     \<not> is_Go ev \<and> \<not> is_CallDefer ev \<and> ev \<noteq> WgAdd \<and> ev \<noteq> WgWait
     \<and> ev \<noteq> TokenCancelled \<and> ev \<noteq> SignalReceived"
  unfolding shutdown_servers_def by (rule shutdown_servers_events)


lemma shutdown_every_server:
  assumes "bootstrap e cfg = Inr b"
    and "startup (startup_result e) (startupJobs b) = Inr t"
    and "signal_at e = Some ts"
    and p: "p \<in> fst ` set (servers b)"
  shows "count_list (Run e nm cfg) (Shutdown p) = 1"
    and "Shutdown_result e p \<noteq> None \<Longrightarrow> count_list (Run e nm cfg) (Close p) = 1"
    and "Shutdown_result e p = None \<Longrightarrow> Close p \<notin> set (Run e nm cfg)"
    and "precedes (\<lambda>ev. ev = Shutdown p) (\<lambda>ev. ev = Close p) (Run e nm cfg)"
proof -
  note tr = run_shutdown_parts[OF assms(1-3), of nm]
  note A = before_cancel_events[OF assms(2), of _ e nm b]
  have d: "distinct (range_keys (servers_rank e) (servers b))"
    using bootstrap_distinct(1)[OF assms(1)] by (rule range_keys_distinct)
  have m: "p \<in> set (range_keys (servers_rank e) (servers b))"
    using p by (simp add: range_keys_set)
  have cs: "count_list (shutdown_servers e b) (Shutdown p) = 1"
    using d m by (simp add: shutdown_servers_def count_shutdown count_distinct)
  have cc: "count_list (shutdown_servers e b) (Close p) = (if Shutdown_result e p = None then 0 else 1)"
    using d m by (simp add: shutdown_servers_def count_close count_distinct)
  have c0: "count_list (before_cancel e nm b t) (Shutdown p) = 0"
    "count_list (before_cancel e nm b t) (Close p) = 0"
    "count_list (map CallDefer (deferFns b)) (Shutdown p) = 0"
    "count_list (map CallDefer (deferFns b)) (Close p) = 0"
    using A by (auto intro!: count_absent)
  show "count_list (Run e nm cfg) (Shutdown p) = 1"
    unfolding tr using cs c0 by simp
  show "Shutdown_result e p \<noteq> None \<Longrightarrow> count_list (Run e nm cfg) (Close p) = 1"
    unfolding tr using cc c0 by simp
  have "Shutdown_result e p = None \<Longrightarrow> count_list (Run e nm cfg) (Close p) = 0"
    unfolding tr using cc c0 by simp
  then show "Shutdown_result e p = None \<Longrightarrow> Close p \<notin> set (Run e nm cfg)"
    by (simp add: count_list_0_iff)
  have ps: "precedes (\<lambda>ev. ev = Shutdown p) (\<lambda>ev. ev = Close p) (shutdown_servers e b)"
    unfolding shutdown_servers_def using d by (rule precedes_shutdown_close)
  have a: "\<forall>ev\<in>set (before_cancel e nm b t). ev \<noteq> Shutdown p \<and> ev \<noteq> Close p"
    using A by blast
  show "precedes (\<lambda>ev. ev = Shutdown p) (\<lambda>ev. ev = Close p) (Run e nm cfg)"
    unfolding tr using ps a
    by (auto simp: precedes_append_iff precedes_no_P list_all_iff)
qed

section \<open>Goroutines and the wait group\<close>

lemma is_Panic_iff: "is_Panic ev \<longleftrightarrow> (\<exists>m. ev = Panic m)"
  by (cases ev) simp_all

lemma is_Panic_halts: "is_Panic ev \<Longrightarrow> halts ev"
  by (cases ev) simp_all

lemma crash_only_Cons: "crash_only (ev # evs) \<longleftrightarrow> is_Panic ev \<and> evs = []"
  by (cases evs) simp_all

lemma joined_main_other:
  "\<not> is_Go ev \<Longrightarrow> \<not> is_CallDefer ev \<Longrightarrow> joined us ((Main, ev) # tr) = joined us tr"
  by (cases ev) simp_all

lemma joined_after_wait:
  "interleave body sch main pool wg = Some tr \<Longrightarrow> \<forall>ev\<in>set main. \<not> is_Go ev \<Longrightarrow>
   \<forall>u rest. pool u = Some rest \<longrightarrow> crash_only rest \<Longrightarrow> joined [] tr"
proof (induction body sch main pool wg arbitrary: tr rule: interleave.induct)
  case (1 body main pool wg)
  then show ?case by simp
next
  case (2 body sch main pool wg)
  from "2.prems"(1) obtain ev rest where m: "main = ev # rest"
    by (cases main) auto
  have g: "\<not> is_Go ev" using "2.prems"(2) m by simp
  show ?case
  proof (cases "halts ev")
    case True
    with "2.prems"(1) m have "tr = [(Main, ev)]" by (auto split: if_splits)
    then show ?thesis using True by (cases ev) simp_all
  next
    case False
    with "2.prems"(1) m obtain tr' where
      w: "\<not> (ev = WgWait \<and> wg \<noteq> 0)" and
      t: "interleave body sch rest (spawn body ev pool) (wg_step ev wg) = Some tr'" and
      tr: "tr = (Main, ev) # tr'"
      by (auto split: if_splits)
    have sp: "spawn body ev pool = pool" using g by (cases ev) (simp_all add: spawn_def)
    have "joined [] tr'"
      using "2.IH"[OF m w False t] "2.prems"(2,3) m sp by simp
    then show ?thesis using tr g by (cases ev) simp_all
  qed
next
  case (3 body u sch main pool wg)
  from "3.prems"(1) obtain ev rest where p: "pool u = Some (ev # rest)"
    by (auto split: option.splits list.splits)
  from "3.prems"(3) p have "crash_only (ev # rest)" by blast
  then have c: "is_Panic ev" "rest = []" by (simp_all add: crash_only_Cons)
  then have "halts ev" by (simp add: is_Panic_halts)
  with "3.prems"(1) p have "tr = [(Goroutine u, ev)]" by (auto split: if_splits)
  then show ?case using c by simp
qed

lemma trackedI:
  assumes "ready k ids main" "dom pool \<subseteq> ids" "wg = int (length us) + int k"
    and "distinct us" "set us \<subseteq> dom pool"
    and "\<And>u rest. pool u = Some rest \<Longrightarrow>
           (if u \<in> set us then done_last rest else crash_only rest)"
  shows "tracked main pool wg us"
  unfolding tracked_def using assms by blast

lemma trackedE:
  assumes "tracked main pool wg us"
  obtains k ids where "ready k ids main" "dom pool \<subseteq> ids" "wg = int (length us) + int k"
    "distinct us" "set us \<subseteq> dom pool"
    "\<And>u rest. pool u = Some rest \<Longrightarrow>
           (if u \<in> set us then done_last rest else crash_only rest)"
  using assms unfolding tracked_def by blast

lemma tracked_WgAdd:
  assumes "tracked (WgAdd # m) pool wg us"
  shows "tracked m pool (wg + 1) us"
proof (rule trackedE[OF assms(1)])
  fix k ids
  assume r: "ready k ids (WgAdd # m)" and d: "dom pool \<subseteq> ids"
    and w: "wg = int (length us) + int k" and u1: "distinct us" and u2: "set us \<subseteq> dom pool"
    and p: "\<And>u rest. pool u = Some rest \<Longrightarrow>
           (if u \<in> set us then done_last rest else crash_only rest)"
  show ?thesis
  proof (rule trackedI[of "Suc k" ids])
    show "ready (Suc k) ids m" using r by simp
    show "wg + 1 = int (length us) + int (Suc k)" using w by simp
    show "dom pool \<subseteq> ids" by (rule d)
    show "distinct us" by (rule u1)
    show "set us \<subseteq> dom pool" by (rule u2)
    show "\<And>u rest. pool u = Some rest \<Longrightarrow>
           (if u \<in> set us then done_last rest else crash_only rest)" by (rule p)
  qed
qed

lemma tracked_Go:
  assumes "tracked (Go v # m) pool wg us" and ok: "unit_ok body"
  shows "tracked m (pool(v \<mapsto> body v)) wg (v # us)"
proof (rule trackedE[OF assms(1)])
  fix k ids
  assume r: "ready k ids (Go v # m)" and d: "dom pool \<subseteq> ids"
    and w: "wg = int (length us) + int k" and u1: "distinct us" and u2: "set us \<subseteq> dom pool"
    and p: "\<And>u rest. pool u = Some rest \<Longrightarrow>
           (if u \<in> set us then done_last rest else crash_only rest)"
  note u = u1 u2
  from r have k: "0 < k" and v: "v \<notin> ids" and r': "ready (k - 1) (insert v ids) m" by simp_all
  show ?thesis
  proof (rule trackedI[of "k - 1" "insert v ids"])
    show "ready (k - 1) (insert v ids) m" by (rule r')
    show "dom (pool(v \<mapsto> body v)) \<subseteq> insert v ids" using d by auto
    show "wg = int (length (v # us)) + int (k - 1)" using w k by simp
    show "distinct (v # us)" using u d v by auto
    show "set (v # us) \<subseteq> dom (pool(v \<mapsto> body v))" using u by auto
    fix u rest assume a: "(pool(v \<mapsto> body v)) u = Some rest"
    show "if u \<in> set (v # us) then done_last rest else crash_only rest"
    proof (cases "u = v")
      case True
      with a have "rest = body v" by simp
      then show ?thesis using ok True by (simp add: unit_ok_def)
    next
      case False
      with a have "pool u = Some rest" by simp
      from p[OF this] False show ?thesis by simp
    qed
  qed
qed

lemma tracked_WgWait:
  assumes "tracked (WgWait # m) pool 0 us"
  shows "us = [] \<and> (\<forall>ev\<in>set m. \<not> is_Go ev) \<and> (\<forall>u rest. pool u = Some rest \<longrightarrow> crash_only rest)"
proof (rule trackedE[OF assms(1)])
  fix k ids
  assume r: "ready k ids (WgWait # m)"
    and w: "(0::int) = int (length us) + int k"
    and p: "\<And>u rest. pool u = Some rest \<Longrightarrow>
           (if u \<in> set us then done_last rest else crash_only rest)"
  from w have "length us = 0" by linarith
  then have e: "us = []" by simp
  have "\<forall>u rest. pool u = Some rest \<longrightarrow> crash_only rest"
  proof (intro allI impI)
    fix u rest assume "pool u = Some rest"
    from p[OF this] e show "crash_only rest" by simp
  qed
  with r e show ?thesis by simp
qed

lemma tracked_impossible:
  "\<not> tracked (CallDefer f # m) pool wg us" "\<not> tracked (WgDone # m) pool wg us"
  by (auto elim!: trackedE)

lemma tracked_main_other:
  assumes "tracked (ev # m) pool wg us"
    and "ev \<noteq> WgAdd" "\<not> is_Go ev" "ev \<noteq> WgWait"
  shows "tracked m pool wg us"
proof (rule trackedE[OF assms(1)])
  fix k ids
  assume r: "ready k ids (ev # m)" and d: "dom pool \<subseteq> ids"
    and w: "wg = int (length us) + int k" and u1: "distinct us" and u2: "set us \<subseteq> dom pool"
    and p: "\<And>u rest. pool u = Some rest \<Longrightarrow>
           (if u \<in> set us then done_last rest else crash_only rest)"
  have "ready k ids m" using r assms(2-4) by (cases ev) simp_all
  then show ?thesis using d w u1 u2 p by (rule trackedI)
qed

lemma tracked_unit_crash:
  assumes "tracked main pool wg us" and pu: "pool v = Some (ev # rest)" and v: "v \<notin> set us"
  shows "is_Panic ev \<and> rest = []"
proof (rule trackedE[OF assms(1)])
  fix k ids
  assume p: "\<And>u rest. pool u = Some rest \<Longrightarrow>
           (if u \<in> set us then done_last rest else crash_only rest)"
  from p[OF pu] v show ?thesis by (simp add: crash_only_Cons)
qed

lemma tracked_unit_done:
  assumes "tracked main pool wg us" and pu: "pool v = Some (WgDone # rest)"
  shows "v \<in> set us \<and> tracked main (pool(v \<mapsto> rest)) (wg - 1) (removeAll v us)"
proof (rule trackedE[OF assms(1)])
  fix k ids
  assume r: "ready k ids main" and d: "dom pool \<subseteq> ids"
    and w: "wg = int (length us) + int k" and u1: "distinct us" and u2: "set us \<subseteq> dom pool"
    and p: "\<And>u rest. pool u = Some rest \<Longrightarrow>
           (if u \<in> set us then done_last rest else crash_only rest)"
  note u = u1 u2
  have v: "v \<in> set us"
    using tracked_unit_crash[OF assms(1) pu] by auto
  with p[OF pu] have c: "crash_only rest" by simp
  have l: "length (removeAll v us) = length us - 1"
    using u(1) v by (simp add: distinct_remove1_removeAll[symmetric] length_remove1)
  have lp: "0 < length us" using v by (cases us) auto
  have "tracked main (pool(v \<mapsto> rest)) (wg - 1) (removeAll v us)"
  proof (rule trackedI[of k ids])
    show "ready k ids main" by (rule r)
    show "dom (pool(v \<mapsto> rest)) \<subseteq> ids" using d pu by auto
    show "wg - 1 = int (length (removeAll v us)) + int k" using w l lp by linarith
    show "distinct (removeAll v us)" using u(1) by (simp add: distinct_removeAll)
    show "set (removeAll v us) \<subseteq> dom (pool(v \<mapsto> rest))" using u(2) by auto
    fix u' rest' assume q: "(pool(v \<mapsto> rest)) u' = Some rest'"
    show "if u' \<in> set (removeAll v us) then done_last rest' else crash_only rest'"
    proof (cases "u' = v")
      case True
      with q have "rest' = rest" by simp
      then show ?thesis using c True by simp
    next
      case False
      with q have "pool u' = Some rest'" by simp
      from p[OF this] False show ?thesis by simp
    qed
  qed
  with v show ?thesis by simp
qed

lemma tracked_unit_other:
  assumes "tracked main pool wg us" and pu: "pool v = Some (ev # rest)"
    and ev: "ev \<noteq> WgDone" and v: "v \<in> set us"
  shows "tracked main (pool(v \<mapsto> rest)) (wg_step ev wg) us"
proof (rule trackedE[OF assms(1)])
  fix k ids
  assume r: "ready k ids main" and d: "dom pool \<subseteq> ids"
    and w: "wg = int (length us) + int k" and u1: "distinct us" and u2: "set us \<subseteq> dom pool"
    and p: "\<And>u rest. pool u = Some rest \<Longrightarrow>
           (if u \<in> set us then done_last rest else crash_only rest)"
  note u = u1 u2
  from p[OF pu] v ev have e: "ev \<noteq> WgAdd" and c: "done_last rest" by simp_all
  have s: "wg_step ev wg = wg" using e ev by (cases ev) (simp_all add: wg_step_def)
  show ?thesis unfolding s
  proof (rule trackedI[of k ids])
    show "ready k ids main" by (rule r)
    show "dom (pool(v \<mapsto> rest)) \<subseteq> ids" using d pu by auto
    show "wg = int (length us) + int k" by (rule w)
    show "distinct us" by (rule u(1))
    show "set us \<subseteq> dom (pool(v \<mapsto> rest))" using u(2) by auto
    fix u' rest' assume q: "(pool(v \<mapsto> rest)) u' = Some rest'"
    show "if u' \<in> set us then done_last rest' else crash_only rest'"
    proof (cases "u' = v")
      case True
      with q have "rest' = rest" by simp
      then show ?thesis using c v True by simp
    next
      case False
      with q have "pool u' = Some rest'" by simp
      from p[OF this] show ?thesis by simp
    qed
  qed
qed

lemma joined_tracked:
  "interleave body sch main pool wg = Some tr \<Longrightarrow> unit_ok body \<Longrightarrow> tracked main pool wg us \<Longrightarrow>
   joined us tr"
proof (induction body sch main pool wg arbitrary: tr us rule: interleave.induct)
  case (1 body main pool wg)
  then show ?case by simp
next
  case (2 body sch main pool wg)
  from "2.prems"(1) obtain ev rest where m: "main = ev # rest"
    by (cases main) auto
  note T = "2.prems"(3)[unfolded m]
  show ?case
  proof (cases "halts ev")
    case True
    with "2.prems"(1) m have "tr = [(Main, ev)]" by (auto split: if_splits)
    then show ?thesis using True by (cases ev) simp_all
  next
    case False
    with "2.prems"(1) m obtain tr' where
      w: "\<not> (ev = WgWait \<and> wg \<noteq> 0)" and
      t: "interleave body sch rest (spawn body ev pool) (wg_step ev wg) = Some tr'" and
      tr: "tr = (Main, ev) # tr'"
      by (auto split: if_splits)
    note IH = "2.IH"[OF m w False t "2.prems"(2)]
    consider (add) "ev = WgAdd" | (go) v where "ev = Go v" | (wait) "ev = WgWait"
      | (other) "ev \<noteq> WgAdd" "\<not> is_Go ev" "ev \<noteq> WgWait"
      by (cases ev) auto
    then show ?thesis
    proof cases
      case add
      have "tracked rest (spawn body ev pool) (wg_step ev wg) us"
        using tracked_WgAdd[of rest pool wg us] T add by (simp add: spawn_def wg_step_def)
      from IH[OF this] show ?thesis using tr add by simp
    next
      case go
      have "tracked rest (spawn body ev pool) (wg_step ev wg) (v # us)"
        using tracked_Go[of v rest pool wg us body] T go "2.prems"(2)
        by (simp add: spawn_def wg_step_def)
      from IH[OF this] show ?thesis using tr go by simp
    next
      case wait
      with w have "wg = 0" by simp
      with T wait have a: "us = [] \<and> (\<forall>ev\<in>set rest. \<not> is_Go ev)
          \<and> (\<forall>u rest. pool u = Some rest \<longrightarrow> crash_only rest)"
        using tracked_WgWait[of rest pool us] by simp
      have "spawn body ev pool = pool" using wait by (simp add: spawn_def)
      with t a have "joined [] tr'" using joined_after_wait[of body sch rest pool _ tr'] by simp
      then show ?thesis using tr wait a by simp
    next
      case other
      have d: "\<not> is_CallDefer ev" using T tracked_impossible(1) by (cases ev) auto
      have "tracked rest (spawn body ev pool) (wg_step ev wg) us"
        using tracked_main_other[OF T other] tracked_impossible(2)[of rest pool wg us] T other
        by (cases ev) (simp_all add: spawn_def wg_step_def)
      from IH[OF this] show ?thesis using tr other d by (simp add: joined_main_other)
    qed
  qed
next
  case (3 body u sch main pool wg)
  from "3.prems"(1) obtain ev rest where p: "pool u = Some (ev # rest)"
    by (auto split: option.splits list.splits)
  show ?case
  proof (cases "halts ev")
    case True
    with "3.prems"(1) p have tr: "tr = [(Goroutine u, ev)]" by (auto split: if_splits)
    show ?thesis
    proof (cases "u \<in> set us")
      case True
      with tr show ?thesis by simp
    next
      case False
      with tracked_unit_crash[OF "3.prems"(3) p] tr show ?thesis by simp
    qed
  next
    case False
    with "3.prems"(1) p obtain tr' where
      t: "interleave body sch main (pool(u \<mapsto> rest)) (wg_step ev wg) = Some tr'" and
      tr: "tr = (Goroutine u, ev) # tr'"
      by auto
    note IH = "3.IH"[OF p refl False t "3.prems"(2)]
    have u: "u \<in> set us"
      using tracked_unit_crash[OF "3.prems"(3) p] False is_Panic_halts by blast
    show ?thesis
    proof (cases "ev = WgDone")
      case True
      have "tracked main (pool(u \<mapsto> rest)) (wg_step ev wg) (removeAll u us)"
        using tracked_unit_done[OF "3.prems"(3), of u rest] p True by (simp add: wg_step_def)
      from IH[OF this] show ?thesis using tr True u by simp
    next
      case False
      have "tracked main (pool(u \<mapsto> rest)) (wg_step ev wg) us"
        using tracked_unit_other[OF "3.prems"(3) p False u] .
      from IH[OF this] show ?thesis using tr False u by simp
    qed
  qed
qed

lemma ready_neutral: "neutral ev \<Longrightarrow> ready k ids (ev # m) = ready k ids m"
  by (cases ev) simp_all

lemma ready_neutral_append: "\<forall>ev\<in>set xs. neutral ev \<Longrightarrow> ready k ids (xs @ ys) = ready k ids ys"
  by (induction xs) (simp_all add: ready_neutral)

lemma ready_neutral_all: "\<forall>ev\<in>set xs. neutral ev \<Longrightarrow> ready k ids xs"
  using ready_neutral_append[of xs k ids "[]"] by simp

lemma ready_launch:
  "distinct ks \<Longrightarrow> inj g \<Longrightarrow> \<forall>x\<in>set ks. g x \<notin> ids \<Longrightarrow>
   ready k ids (concat (map (\<lambda>x. [WgAdd, Go (g x)]) ks) @ m) = ready k (ids \<union> g ` set ks) m"
proof (induction ks arbitrary: ids)
  case Nil
  then show ?case by simp
next
  case (Cons x ks)
  have "\<forall>y\<in>set ks. g y \<notin> insert (g x) ids"
    using Cons.prems by (auto dest: injD)
  from Cons.IH[OF _ Cons.prems(2) this] Cons.prems(1,3)
  show ?case by simp
qed

lemma fatal_neutral: "\<forall>ev\<in>set (slogFatalContext ctx msg er). neutral ev"
  by (simp add: slogFatalContext_def split: option.splits)

lemma job_event_neutral: "is_job_event ev \<Longrightarrow> neutral ev"
  by (cases ev) simp_all

lemma startup_neutral:
  "startup res js = r \<Longrightarrow> \<forall>ev\<in>set (case r of Inl t \<Rightarrow> t | Inr t \<Rightarrow> t). neutral ev"
proof (induction js arbitrary: r)
  case Nil
  then show ?case by auto
next
  case (Cons j js)
  show ?case
  proof (cases "res (name j)")
    case None
    with Cons.prems Cons.IH[OF refl] show ?thesis
      by (auto simp: Let_def split: sum.splits)
  next
    case (Some er)
    with Cons.prems show ?thesis
      using fatal_neutral[of "[(''job'', StringValue (name j))]" "''failed to run startup job''" "Some er"]
      by (auto simp: Let_def)
  qed
qed

lemma shutdown_servers_neutral: "\<forall>ev\<in>set (shutdown_servers e b). neutral ev"
  by (auto simp: shutdown_servers_def dest!: shutdown_server_events)

lemma ready_serve:
  assumes "distinct (map fst (servers b))" "distinct (map fst (jobs b))"
  shows "ready 0 {} (serve e b)"
proof -
  let ?S = "ServerUnit ` set (sort (map fst (servers b)))"
  have 1: "ready 0 {} (serve e b) =
           ready 0 ({} \<union> ?S) (launch_jobs e b @ [SignalNotify] @
             (case signal_at e of None \<Rightarrow> [] | Some t \<Rightarrow> shutdown e b))"
    unfolding serve_def launch_servers_def
    by (rule ready_launch) (use assms(1) in \<open>auto simp: inj_def\<close>)
  have 2: "ready 0 ({} \<union> ?S) (launch_jobs e b @ [SignalNotify] @
             (case signal_at e of None \<Rightarrow> [] | Some t \<Rightarrow> shutdown e b)) =
           ready 0 (({} \<union> ?S) \<union> JobUnit ` set (range_keys (jobs_rank e) (jobs b)))
             ([SignalNotify] @ (case signal_at e of None \<Rightarrow> [] | Some t \<Rightarrow> shutdown e b))"
    unfolding launch_jobs_def
    by (rule ready_launch) (use assms(2) in \<open>auto simp: inj_def range_keys_def\<close>)
  have 3: "ready 0 ids ([SignalNotify] @ (case signal_at e of None \<Rightarrow> [] | Some t \<Rightarrow> shutdown e b))"
    for ids
  proof (cases "signal_at e")
    case None
    then show ?thesis by simp
  next
    case (Some ts)
    have s: "shutdown e b =
       ([SignalReceived, Log LevelInfo [] ''received shutdown signal'' [],
         Log LevelInfo [] ''stopping jobs'' [], TokenCancelled,
         Log LevelInfo [] ''shutting down server...'' []] @ shutdown_servers e b @
        [Log LevelInfo [] ''waiting for jobs to finish'' []]) @
       WgWait # (map CallDefer (deferFns b) @ [Log LevelInfo [] ''bye!'' []])"
      by (simp add: shutdown_def CancelFunc_def shutdown_servers_def)
    have "ready 0 ids (shutdown e b)"
      unfolding s
      by (subst ready_neutral_append) (use shutdown_servers_neutral[of e b] in auto)
    then show ?thesis using Some by simp
  qed
  from 1 2 3 show ?thesis by simp
qed

lemma ready_Run: "ready 0 {} (Run e nm cfg)"
proof (cases "bootstrap e cfg")
  case (Inl t)
  then obtain msg er where "t = slogFatal msg er" using bootstrap_fatal by blast
  then have "\<forall>ev\<in>set (Run e nm cfg). neutral ev"
    using Inl fatal_neutral[of "[]" msg er] by (simp add: Run_def slogFatal_def)
  then show ?thesis by (rule ready_neutral_all)
next
  case (Inr b)
  note d = bootstrap_distinct[OF Inr]
  show ?thesis
  proof (cases "startup (startup_result e) (startupJobs b)")
    case (Inl t)
    have "\<forall>ev\<in>set t. neutral ev" using startup_neutral[OF Inl] by simp
    then have "\<forall>ev\<in>set (Run e nm cfg). neutral ev"
      using Inl \<open>bootstrap e cfg = Inr b\<close> by (simp add: Run_def)
    then show ?thesis by (rule ready_neutral_all)
  next
    case (Inr t)
    have n: "\<forall>ev\<in>set ([SetDefault nm, Log LevelInfo [] ''starting service...'' []] @ t). neutral ev"
      using startup_neutral[OF Inr] by simp
    have "Run e nm cfg = ([SetDefault nm, Log LevelInfo [] ''starting service...'' []] @ t) @ serve e b"
      using Inr \<open>bootstrap e cfg = Inr b\<close> by (simp add: Run_def)
    then show ?thesis
      using ready_neutral_append[OF n, of 0 "{}" "serve e b"] ready_serve[OF d] by simp
  qed
qed

lemma runJob_loop_Done:
  "fst (selected c tk now i) = CaseDone \<Longrightarrow>
   runJob_loop c tk f now (i # obs) = (iteration c f now i, Exited)"
  by (cases "selected c tk now i") (simp add: selected_def iteration_def Let_def)

lemma runJob_loop_Tick:
  "fst (selected c tk now i) = CaseTick \<Longrightarrow>
   runJob_loop c tk f now (i # obs) =
     (iteration c f now i @ fst (runJob_loop c tk f (snd (selected c tk now i)) obs),
      snd (runJob_loop c tk f (snd (selected c tk now i)) obs))"
  by (cases "selected c tk now i")
     (simp add: selected_def iteration_def Let_def split: prod.splits)

declare runJob_loop.simps(2) [simp del]

lemma iteration_events:
  "(t, ev) \<in> set (iteration c f now i) \<Longrightarrow> neutral ev \<and> \<not> halts ev"
  by (auto simp: iteration_def log_failure_def split: option.splits if_splits)

lemma runJob_loop_events:
  "(t, ev) \<in> set (fst (runJob_loop c tk f now obs)) \<Longrightarrow> neutral ev \<and> \<not> halts ev"
proof (induction obs arbitrary: now)
  case Nil
  then show ?case by auto
next
  case (Cons i obs)
  show ?case
  proof (cases "fst (selected c tk now i)")
    case CaseDone
    with Cons.prems iteration_events show ?thesis by (simp add: runJob_loop_Done)
  next
    case CaseTick
    with Cons.prems have "(t, ev) \<in> set (iteration c f now i)
        \<or> (t, ev) \<in> set (fst (runJob_loop c tk f (snd (selected c tk now i)) obs))"
      by (simp add: runJob_loop_Tick)
    with Cons.IH iteration_events show ?thesis by blast
  qed
qed

lemma done_last_append:
  "\<forall>ev\<in>set xs. ev \<noteq> WgDone \<and> ev \<noteq> WgAdd \<Longrightarrow> done_last (xs @ ys) = done_last ys"
  by (induction xs) simp_all

lemma done_last_neutral: "\<forall>ev\<in>set xs. neutral ev \<Longrightarrow> done_last (xs @ ys) = done_last ys"
  by (rule done_last_append) auto

lemma butlast_neutral:
  "\<forall>ev\<in>set xs. neutral ev \<Longrightarrow> WgDone \<notin> set (butlast (xs @ [WgDone])) \<and> WgDone \<notin> set (butlast xs)"
proof -
  assume "\<forall>ev\<in>set xs. neutral ev"
  then have n: "WgDone \<notin> set xs" using neutral.simps(3) by blast
  then have "WgDone \<notin> set (butlast xs)" by (auto dest: in_set_butlastD)
  with n show ?thesis by simp
qed

lemma runJob_cases:
  "(\<exists>m. runJob ctx n d f now obs = ([(now, Panic m)], Panicked) \<and> d \<le> 0
        \<and> m = ''non-positive interval for NewTicker'')
   \<or> (snd (runJob ctx n d f now obs) \<noteq> Panicked
        \<and> (\<forall>x\<in>set (fst (runJob ctx n d f now obs)). neutral (snd x) \<and> \<not> halts (snd x)))"
proof (cases "NewTicker now d")
  case (Inl msg)
  then show ?thesis by (auto simp: runJob_def NewTicker_def split: if_splits)
next
  case (Inr tk)
  have "snd (runJob_loop c tk f now obs) \<noteq> Panicked" for c
  proof (induction obs arbitrary: now)
    case Nil
    then show ?case by simp
  next
    case (Cons i obs)
    then show ?case
      by (cases "fst (selected c tk now i)") (simp_all add: runJob_loop_Done runJob_loop_Tick)
  qed
  with Inr show ?thesis using runJob_loop_events by (fastforce simp: runJob_def)
qed

lemma job_unit_cases:
  "job_unit e n j = [WgDone, Panic ''non-positive interval for NewTicker''] \<and> interval j \<le> 0
   \<or> (\<exists>xs. (\<forall>ev\<in>set xs. neutral ev \<and> \<not> halts ev)
         \<and> (job_unit e n j = xs @ [WgDone] \<or> job_unit e n j = xs))"
proof -
  let ?r = "runJob \<lparr>done_at = signal_at e, ctx_attrs = []\<rparr> n (interval j) (fn j)
             (started_at e n) (job_runs e n)"
  from runJob_cases[of "\<lparr>done_at = signal_at e, ctx_attrs = []\<rparr>" n "interval j" "fn j"
      "started_at e n" "job_runs e n"]
  show ?thesis
  proof (elim disjE exE conjE)
    fix m assume "?r = ([(started_at e n, Panic m)], Panicked)" "interval j \<le> 0"
      "m = ''non-positive interval for NewTicker''"
    then show ?thesis by (simp add: job_unit_def unwind_def)
  next
    assume a: "snd ?r \<noteq> Panicked" "\<forall>x\<in>set (fst ?r). neutral (snd x) \<and> \<not> halts (snd x)"
    obtain tr st where r: "?r = (tr, st)" by (cases ?r) auto
    with a have "\<forall>ev\<in>set (map snd tr). neutral ev \<and> \<not> halts ev" "st \<noteq> Panicked" by auto
    moreover have "job_unit e n j = map snd tr @ [WgDone] \<or> job_unit e n j = map snd tr"
      using r \<open>st \<noteq> Panicked\<close> by (cases st) (simp_all add: job_unit_def)
    ultimately show ?thesis by blast
  qed
qed

lemma server_unit_cases:
  "\<exists>xs. (\<forall>ev\<in>set xs. neutral ev \<and> \<not> is_Panic ev)
      \<and> (server_unit e p srv = xs @ [WgDone] \<or> server_unit e p srv = xs)"
proof (cases "\<exists>er. ListenAndServe_result e p = Some er \<and> er \<noteq> ErrServerClosed")
  case True
  then have "\<forall>ev\<in>set (server_unit e p srv). neutral ev \<and> \<not> is_Panic ev"
    by (auto simp: server_unit_def slogFatal_def slogFatalContext_def)
  then show ?thesis by blast
next
  case False
  then have "server_unit e p srv =
      [Log LevelInfo [] ''starting server'' [(''addr'', StringValue (Addr srv))],
       ListenAndServe p] @ [WgDone]"
    by (auto simp: server_unit_def split: option.splits)
  moreover have "\<forall>ev\<in>set [Log LevelInfo [] ''starting server'' [(''addr'', StringValue (Addr srv))],
       ListenAndServe p]. neutral ev \<and> \<not> is_Panic ev" by simp
  ultimately show ?thesis by blast
qed

lemma unit_body_cases:
  "unit_body e b u = [WgDone, Panic ''non-positive interval for NewTicker'']
     \<and> (\<exists>n j. u = JobUnit n \<and> map_of (jobs b) n = Some j \<and> interval j \<le> 0)
   \<or> (\<exists>xs. (\<forall>ev\<in>set xs. neutral ev \<and> \<not> is_Panic ev)
         \<and> (unit_body e b u = xs @ [WgDone] \<or> unit_body e b u = xs))"
proof (cases u)
  case (ServerUnit p)
  show ?thesis
  proof (cases "map_of (servers b) p")
    case None
    with ServerUnit have "unit_body e b u = []" by (simp add: unit_body_def)
    then show ?thesis by simp
  next
    case (Some srv)
    with ServerUnit have "unit_body e b u = server_unit e p srv" by (simp add: unit_body_def)
    with server_unit_cases[of e p srv] show ?thesis by simp
  qed
next
  case (JobUnit n)
  show ?thesis
  proof (cases "map_of (jobs b) n")
    case None
    with JobUnit have "unit_body e b u = []" by (simp add: unit_body_def)
    then show ?thesis by simp
  next
    case (Some j)
    with JobUnit have "unit_body e b u = job_unit e n j" by (simp add: unit_body_def)
    with job_unit_cases[of e n j] Some JobUnit is_Panic_halts show ?thesis by fastforce
  qed
qed

lemma unit_ok_unit_body: "unit_ok (unit_body e b)"
  unfolding unit_ok_def
proof
  fix u
  from unit_body_cases[of e b u]
  consider "unit_body e b u = [WgDone, Panic ''non-positive interval for NewTicker'']"
    | xs where "\<forall>ev\<in>set xs. neutral ev"
        "unit_body e b u = xs @ [WgDone] \<or> unit_body e b u = xs"
    by blast
  then show "done_last (unit_body e b u)"
  proof cases
    case 1
    then show ?thesis by simp
  next
    case 2
    then show ?thesis
      using done_last_neutral[OF 2(1), of "[WgDone]"] done_last_neutral[OF 2(1), of "[]"] by auto
  qed
qed

lemma unit_body_done_last:
  "\<forall>u. WgDone \<notin> set (butlast (unit_body e b u))
     \<or> (\<exists>n j. u = JobUnit n \<and> map_of (jobs b) n = Some j \<and> interval j \<le> 0
           \<and> unit_body e b u = [WgDone, Panic ''non-positive interval for NewTicker''])"
proof
  fix u
  from unit_body_cases[of e b u]
  consider "unit_body e b u = [WgDone, Panic ''non-positive interval for NewTicker'']"
      "\<exists>n j. u = JobUnit n \<and> map_of (jobs b) n = Some j \<and> interval j \<le> 0"
    | xs where "\<forall>ev\<in>set xs. neutral ev"
        "unit_body e b u = xs @ [WgDone] \<or> unit_body e b u = xs"
    by blast
  then show "WgDone \<notin> set (butlast (unit_body e b u))
     \<or> (\<exists>n j. u = JobUnit n \<and> map_of (jobs b) n = Some j \<and> interval j \<le> 0
           \<and> unit_body e b u = [WgDone, Panic ''non-positive interval for NewTicker''])"
  proof cases
    case 1
    then show ?thesis by blast
  next
    case 2
    with butlast_neutral[OF 2(1)] show ?thesis by auto
  qed
qed

lemma job_unit_done_iff:
  "WgDone \<in> set (job_unit e n j) \<longleftrightarrow>
     snd (runJob \<lparr>done_at = signal_at e, ctx_attrs = []\<rparr> n (interval j) (fn j)
            (started_at e n) (job_runs e n)) \<noteq> Running"
proof -
  let ?r = "runJob \<lparr>done_at = signal_at e, ctx_attrs = []\<rparr> n (interval j) (fn j)
             (started_at e n) (job_runs e n)"
  from runJob_cases[of "\<lparr>done_at = signal_at e, ctx_attrs = []\<rparr>" n "interval j" "fn j"
      "started_at e n" "job_runs e n"]
  show ?thesis
  proof (elim disjE exE conjE)
    fix m assume "?r = ([(started_at e n, Panic m)], Panicked)"
    then show ?thesis by (simp add: job_unit_def unwind_def)
  next
    assume a: "snd ?r \<noteq> Panicked" "\<forall>x\<in>set (fst ?r). neutral (snd x) \<and> \<not> halts (snd x)"
    obtain tr st where r: "?r = (tr, st)" by (cases ?r) auto
    with a have n: "\<forall>ev\<in>set (map snd tr). neutral ev" and st: "st \<noteq> Panicked" by auto
    from n have "WgDone \<notin> set (map snd tr)" using neutral.simps(3) by blast
    then show ?thesis using r st by (cases st) (simp_all add: job_unit_def)
  qed
qed

lemma server_unit_done_iff:
  "WgDone \<in> set (server_unit e p srv) \<longleftrightarrow>
     ListenAndServe_result e p = None \<or> ListenAndServe_result e p = Some ErrServerClosed"
  by (auto simp: server_unit_def slogFatal_def slogFatalContext_def split: option.splits)

lemma unit_body_done_iff:
  "(\<forall>n j. map_of (jobs b) n = Some j \<longrightarrow>
      (WgDone \<in> set (unit_body e b (JobUnit n))) =
      (snd (runJob \<lparr>done_at = signal_at e, ctx_attrs = []\<rparr> n (interval j) (fn j)
              (started_at e n) (job_runs e n)) \<noteq> Running))
   \<and> (\<forall>p srv. map_of (servers b) p = Some srv \<longrightarrow>
      (WgDone \<in> set (unit_body e b (ServerUnit p))) =
      (ListenAndServe_result e p = None \<or> ListenAndServe_result e p = Some ErrServerClosed))"
  by (simp add: unit_body_def job_unit_done_iff server_unit_done_iff)

lemma unit_body_no_Panic:
  assumes "\<forall>j\<in>snd ` set (jobs b). 0 < interval j"
  shows "\<forall>ev\<in>set (unit_body e b u). \<not> is_Panic ev"
proof -
  from unit_body_cases[of e b u]
  consider n j where "map_of (jobs b) n = Some j" "interval j \<le> 0"
    | xs where "\<forall>ev\<in>set xs. neutral ev \<and> \<not> is_Panic ev"
        "unit_body e b u = xs @ [WgDone] \<or> unit_body e b u = xs"
    by blast
  then show ?thesis
  proof cases
    case 1
    from map_of_SomeD[OF 1(1)] have "j \<in> snd ` set (jobs b)" by force
    with assms 1(2) show ?thesis by force
  next
    case 2
    then show ?thesis by auto
  qed
qed

lemma interleave_events:
  "interleave body sch main pool wg = Some tr \<Longrightarrow> \<forall>ev\<in>set main. P ev \<Longrightarrow>
   \<forall>u rest. pool u = Some rest \<longrightarrow> (\<forall>ev\<in>set rest. P ev) \<Longrightarrow>
   \<forall>u. \<forall>ev\<in>set (body u). P ev \<Longrightarrow> \<forall>x\<in>set tr. P (snd x)"
proof (induction body sch main pool wg arbitrary: tr rule: interleave.induct)
  case (1 body main pool wg)
  then show ?case by simp
next
  case (2 body sch main pool wg)
  from "2.prems"(1) obtain ev rest where m: "main = ev # rest"
    by (cases main) auto
  have e: "P ev" and r: "\<forall>ev\<in>set rest. P ev" using "2.prems"(2) m by simp_all
  show ?case
  proof (cases "halts ev")
    case True
    with "2.prems"(1) m have "tr = [(Main, ev)]" by (auto split: if_splits)
    then show ?thesis using e by simp
  next
    case False
    with "2.prems"(1) m obtain tr' where
      w: "\<not> (ev = WgWait \<and> wg \<noteq> 0)" and
      t: "interleave body sch rest (spawn body ev pool) (wg_step ev wg) = Some tr'" and
      tr: "tr = (Main, ev) # tr'"
      by (auto split: if_splits)
    have p: "\<forall>u rest. spawn body ev pool u = Some rest \<longrightarrow> (\<forall>ev\<in>set rest. P ev)"
      using "2.prems"(3,4) by (auto simp: spawn_def split: event.splits if_splits)
    from "2.IH"[OF m w False t r p "2.prems"(4)] tr e show ?thesis by simp
  qed
next
  case (3 body u sch main pool wg)
  from "3.prems"(1) obtain ev rest where p: "pool u = Some (ev # rest)"
    by (auto split: option.splits list.splits)
  with "3.prems"(3) have e: "P ev" and r: "\<forall>ev\<in>set rest. P ev" by fastforce+
  show ?case
  proof (cases "halts ev")
    case True
    with "3.prems"(1) p have "tr = [(Goroutine u, ev)]" by (auto split: if_splits)
    then show ?thesis using e by simp
  next
    case False
    with "3.prems"(1) p obtain tr' where
      t: "interleave body sch main (pool(u \<mapsto> rest)) (wg_step ev wg) = Some tr'" and
      tr: "tr = (Goroutine u, ev) # tr'"
      by auto
    have q: "\<forall>v rest'. (pool(u \<mapsto> rest)) v = Some rest' \<longrightarrow> (\<forall>ev\<in>set rest'. P ev)"
      using "3.prems"(3) r by auto
    from "3.IH"[OF p refl False t "3.prems"(2) q "3.prems"(4)] tr e show ?thesis by simp
  qed
qed

lemma serve_no_Panic: "ev \<in> set (serve e b) \<Longrightarrow> \<not> is_Panic ev"
proof -
  assume "ev \<in> set (serve e b)"
  then consider "ev \<in> set (launch_servers b @ launch_jobs e b)" | "ev = SignalNotify"
    | "ev \<in> set (shutdown e b)"
    by (auto simp: serve_def split: option.splits)
  then show ?thesis
  proof cases
    case 1
    from launch_events[OF this] show ?thesis by (cases ev) auto
  next
    case 2
    then show ?thesis by simp
  next
    case 3
    then show ?thesis
      by (auto simp: shutdown_def CancelFunc_def dest!: shutdown_server_events)
  qed
qed

lemma Run_no_Panic:
  assumes "bootstrap e cfg = Inr b"
    and "startup (startup_result e) (startupJobs b) = Inr t"
  shows "\<forall>ev\<in>set (Run e nm cfg). \<not> is_Panic ev"
proof -
  have "\<not> is_Panic ev" if "ev \<in> set t" for ev
    using startup_events[OF assms(2) that] by (cases ev) simp_all
  then show ?thesis
    unfolding run_served[OF assms] using serve_no_Panic by auto
qed

lemma Run_joined:
  assumes "interleave (unit_body e b) sch (Run e nm cfg) Map.empty 0 = Some tr"
  shows "joined [] tr"
proof -
  have "tracked (Run e nm cfg) Map.empty 0 []"
    by (rule trackedI[of 0 "{}"]) (use ready_Run in simp_all)
  with assms unit_ok_unit_body show ?thesis by (rule joined_tracked)
qed

lemma Run_trace_no_Panic:
  assumes "bootstrap e cfg = Inr b"
    and "startup (startup_result e) (startupJobs b) = Inr t"
    and "\<forall>j\<in>snd ` set (jobs b). 0 < interval j"
    and "interleave (unit_body e b) sch (Run e nm cfg) Map.empty 0 = Some tr"
  shows "\<forall>x\<in>set tr. \<not> is_Panic (snd x)"
  using interleave_events[where P = "\<lambda>ev. \<not> is_Panic ev", OF assms(4)]
    Run_no_Panic[OF assms(1,2)] unit_body_no_Panic[OF assms(3)]
  by simp

text \<open>\<open>joined\<close> does not hold of a trace in which a callback is called while a launched
  goroutine has not called \<^verbatim>\<open>wg.Done()\<close>, nor of one in which a goroutine goes
  on after its \<^verbatim>\<open>wg.Done()\<close>.\<close>

lemma joined_refuses:
  "\<not> joined [] [(Main, WgAdd), (Main, Go (JobUnit ''beat'')),
                 (Goroutine (JobUnit ''beat''), CallFn ''f3'' []),
                 (Main, WgWait), (Main, CallDefer ''A'')]"
  "\<not> joined [] [(Main, WgAdd), (Main, Go (JobUnit ''beat'')),
                 (Goroutine (JobUnit ''beat''), WgDone),
                 (Main, WgWait), (Main, CallDefer ''A''),
                 (Goroutine (JobUnit ''beat''), CallFn ''f3'' []),
                 (Goroutine (JobUnit ''beat''), RetFn ''f3'' None)]"
  by simp_all

section \<open>Shutdown and deferred cleanup\<close>

lemma deferred_Cons:
  "deferred (ev # tr) = (case ev of CallDefer f \<Rightarrow> f # deferred tr | _ \<Rightarrow> deferred tr)"
  by (simp add: deferred_def List.map_filter_simps split: event.splits)

lemma deferred_Nil: "deferred [] = []"
  by (simp add: deferred_def List.map_filter_simps)

lemma launched_servers_Cons:
  "launched_servers (ev # tr) =
     (case ev of Go (ServerUnit p) \<Rightarrow> p # launched_servers tr | _ \<Rightarrow> launched_servers tr)"
  by (simp add: launched_servers_def List.map_filter_simps split: event.splits unit_id.splits)

lemma launched_servers_Nil: "launched_servers [] = []"
  by (simp add: launched_servers_def List.map_filter_simps)

lemma launched_run:
  assumes "bootstrap e cfg = Inr b"
    and "startup (startup_result e) (startupJobs b) = Inr t"
  shows "launched (Run e nm cfg) =
           map ServerUnit (sort (map fst (servers b))) @
           map JobUnit (range_keys (jobs_rank e) (jobs b))"
    and "launched_servers (Run e nm cfg) = sort (map fst (servers b))"
    and "count_list (Run e nm cfg) WgAdd = length (servers b) + length (jobs b)"
proof -
  define after where
    "after = (case signal_at e of None \<Rightarrow> [] | Some ts \<Rightarrow> shutdown e b)"
  have tr: "Run e nm cfg =
      SetDefault nm # Log LevelInfo [] ''starting service...'' [] #
      (t @ launch_servers b @ launch_jobs e b @ SignalNotify # after)"
    using run_served[OF assms] by (simp add: serve_def after_def)
  have t: "\<forall>ev\<in>set t. \<not> is_Go ev" "WgAdd \<notin> set t"
    using startup_events[OF assms(2)] job_event_kinds by auto
  have s: "\<forall>ev\<in>set after. \<not> is_Go ev" "WgAdd \<notin> set after"
    by (auto simp: after_def shutdown_def CancelFunc_def dest!: shutdown_server_events
             split: option.splits)
  note z = launched_none[OF t(1)] launched_none[OF s(1)]
    launched_servers_none[OF t(1)] launched_servers_none[OF s(1)]
    count_absent[OF t(2)] count_absent[OF s(2)]
  show "launched (Run e nm cfg) =
           map ServerUnit (sort (map fst (servers b))) @
           map JobUnit (range_keys (jobs_rank e) (jobs b))"
    unfolding tr
    by (simp add: launched_append launched_Cons z launch_servers_def launch_jobs_def
          launched_go_units)
  show "launched_servers (Run e nm cfg) = sort (map fst (servers b))"
    unfolding tr
    by (simp add: launched_servers_append launched_servers_Cons z launch_servers_def
          launch_jobs_def launched_servers_server_units launched_servers_job_units)
  show "count_list (Run e nm cfg) WgAdd = length (servers b) + length (jobs b)"
    unfolding tr
    by (simp add: z launch_servers_def launch_jobs_def count_go_units range_keys_length)
qed

lemma wait_then_cleanup:
  assumes "bootstrap e cfg = Inr b"
    and "startup (startup_result e) (startupJobs b) = Inr t"
    and "signal_at e = Some ts"
  shows "count_list (Run e nm cfg) WgWait = 1"
    and "precedes is_Go (\<lambda>ev. ev = WgWait) (Run e nm cfg)"
    and "precedes (\<lambda>ev. ev = WgWait) is_CallDefer (Run e nm cfg)"
    and "deferred (Run e nm cfg) = deferFns b"
proof -
  note tr = run_shutdown_parts[OF assms, of nm]
  note A = before_cancel_events[OF assms(2), of _ e nm b]
  note S = shutdown_servers_kinds[of _ e b]
  have c: "count_list (before_cancel e nm b t) WgWait = 0"
    "count_list (shutdown_servers e b) WgWait = 0"
    "count_list (map CallDefer (deferFns b)) WgWait = 0"
    using A S by (auto intro!: count_absent)
  show "count_list (Run e nm cfg) WgWait = 1"
    unfolding tr using c by simp
  have "precedes is_Go (\<lambda>ev. ev = WgWait)
          ((before_cancel e nm b t @
            [TokenCancelled, Log LevelInfo [] ''shutting down server...'' []]) @
           (shutdown_servers e b @
            [Log LevelInfo [] ''waiting for jobs to finish'' [], WgWait] @
            map CallDefer (deferFns b) @ [Log LevelInfo [] ''bye!'' []]))"
    by (rule precedes_append) (use A S in auto)
  then show "precedes is_Go (\<lambda>ev. ev = WgWait) (Run e nm cfg)"
    unfolding tr by simp
  have "precedes (\<lambda>ev. ev = WgWait) is_CallDefer
          ((before_cancel e nm b t @
            [TokenCancelled, Log LevelInfo [] ''shutting down server...'' []] @
            shutdown_servers e b @
            [Log LevelInfo [] ''waiting for jobs to finish'' [], WgWait]) @
           (map CallDefer (deferFns b) @ [Log LevelInfo [] ''bye!'' []]))"
    by (rule precedes_append) (use A S in auto)
  then show "precedes (\<lambda>ev. ev = WgWait) is_CallDefer (Run e nm cfg)"
    unfolding tr by simp
  have d: "deferred (before_cancel e nm b t) = []" "deferred (shutdown_servers e b) = []"
    using A S by (auto intro!: deferred_none)
  show "deferred (Run e nm cfg) = deferFns b"
    unfolding tr
    by (simp add: deferred_append deferred_Cons deferred_Nil d deferred_CallDefer)
qed

lemma ex_startup:
  "startup (startup_result ex_env) (startupJobs ex_bootstrapped) =
     Inr [CallFn ''f1'' [(''job'', StringValue ''warm'')], RetFn ''f1'' None,
          CallFn ''f2'' [(''job'', StringValue ''load'')], RetFn ''f2'' None]"
  by (simp add: ex_env_def ex_bootstrapped_def)

text \<open>In the run of the first example schedule the five goroutines call
  \<^verbatim>\<open>wg.Done()\<close> and the three callbacks are called.\<close>

lemma ex_schedule_trace:
  "\<exists>tr. interleave (unit_body ex_env ex_bootstrapped) ex_schedule
          (Run ex_env ''svc'' ex_config) Map.empty 0 = Some tr
        \<and> deferred (map snd tr) = [''A'', ''B'', ''C'']
        \<and> count_list (map snd tr) WgDone = 5"
proof -
  have "case interleave (unit_body ex_env ex_bootstrapped) ex_schedule
          (Run ex_env ''svc'' ex_config) Map.empty 0 of
          None \<Rightarrow> False
        | Some tr \<Rightarrow> deferred (map snd tr) = [''A'', ''B'', ''C'']
                     \<and> count_list (map snd tr) WgDone = 5"
    by code_simp
  then show ?thesis by (auto split: option.splits)
qed



text \<open>
  C7.  The deferred callbacks are the functions passed to \<^verbatim>\<open>Defer\<close>, in the
  order of registration.  A run that receives the signal calls exactly these, in that
  order, each once, on the main goroutine after \<^verbatim>\<open>wg.Wait()\<close> has returned; in
  every interleaving with the launched goroutines, each launched goroutine has
  terminated before the first callback runs: it has called \<^verbatim>\<open>wg.Done()\<close>, and
  that call is the last step it makes.  For \<^verbatim>\<open>wg.Done()\<close> is the last event of
  the function of every goroutine; the one exception is the goroutine of a job whose
  interval is not positive, which panics at once: there the deferred
  \<^verbatim>\<open>wg.Done()\<close> is followed by the end of the process.  When every registered
  job has a positive interval, no goroutine panics in any interleaving and the
  exception does not arise.  The goroutine of a job calls \<^verbatim>\<open>wg.Done()\<close> exactly
  when \<open>runJob\<close> has returned or panicked, that of a server exactly when
  \<^verbatim>\<open>ListenAndServe\<close> has returned and the error it returned is not fatal.
\<close>

theorem C7_deferred_cleanup_order:
  assumes "bootstrap e cfg = Inr b"
    and "startup (startup_result e) (startupJobs b) = Inr t"
    and "signal_at e = Some ts"
  shows "deferFns b = defers_of (calls cfg)
    \<and> deferred (Run e nm cfg) = deferFns b
    \<and> count_list (Run e nm cfg) WgWait = 1
    \<and> precedes (\<lambda>ev. ev = WgWait) is_CallDefer (Run e nm cfg)
    \<and> precedes is_Go is_CallDefer (Run e nm cfg)
    \<and> (\<forall>sch tr. interleave (unit_body e b) sch (Run e nm cfg) Map.empty 0 = Some tr \<longrightarrow>
          joined [] tr)
    \<and> (\<forall>u. WgDone \<notin> set (butlast (unit_body e b u))
          \<or> (\<exists>n j. u = JobUnit n \<and> map_of (jobs b) n = Some j \<and> interval j \<le> 0
                \<and> unit_body e b u = [WgDone, Panic ''non-positive interval for NewTicker'']))
    \<and> ((\<forall>j\<in>snd ` set (jobs b). 0 < interval j) \<longrightarrow>
          (\<forall>sch tr. interleave (unit_body e b) sch (Run e nm cfg) Map.empty 0 = Some tr \<longrightarrow>
             (\<forall>x\<in>set tr. \<not> is_Panic (snd x))))
    \<and> (\<forall>n j. map_of (jobs b) n = Some j \<longrightarrow>
          (WgDone \<in> set (unit_body e b (JobUnit n))) =
          (snd (runJob \<lparr>done_at = signal_at e, ctx_attrs = []\<rparr> n (interval j) (fn j)
                  (started_at e n) (job_runs e n)) \<noteq> Running))
    \<and> (\<forall>p srv. map_of (servers b) p = Some srv \<longrightarrow>
          (WgDone \<in> set (unit_body e b (ServerUnit p))) =
          (ListenAndServe_result e p = None \<or> ListenAndServe_result e p = Some ErrServerClosed))"
proof -
  note w = wait_then_cleanup[OF assms, of nm]
  have "precedes is_Go is_CallDefer (Run e nm cfg)"
    unfolding precedes_iff
  proof (intro allI impI)
    fix i j
    assume a: "i < length (Run e nm cfg) \<and> j < length (Run e nm cfg)
        \<and> is_Go (Run e nm cfg ! i) \<and> is_CallDefer (Run e nm cfg ! j)"
    have "WgWait \<in> set (Run e nm cfg)"
      using w(1) count_absent[of WgWait "Run e nm cfg"] by auto
    then obtain k where k: "k < length (Run e nm cfg)" "Run e nm cfg ! k = WgWait"
      by (auto simp: in_set_conv_nth)
    from w(2)[unfolded precedes_iff] a k have "i < k" by blast
    moreover from w(3)[unfolded precedes_iff] a k have "k < j" by blast
    ultimately show "i < j" by simp
  qed
  then have G: "precedes is_Go is_CallDefer (Run e nm cfg)" .
  have J: "\<forall>sch tr. interleave (unit_body e b) sch (Run e nm cfg) Map.empty 0 = Some tr \<longrightarrow>
          joined [] tr"
    using Run_joined by blast
  have N: "(\<forall>j\<in>snd ` set (jobs b). 0 < interval j) \<longrightarrow>
          (\<forall>sch tr. interleave (unit_body e b) sch (Run e nm cfg) Map.empty 0 = Some tr \<longrightarrow>
             (\<forall>x\<in>set tr. \<not> is_Panic (snd x)))"
    using Run_trace_no_Panic[OF assms(1,2)] by blast
  show ?thesis
    using bootstrap_deferFns[OF assms(1)] w(4) w(1) w(3) G J unit_body_done_last[of e b] N
      unit_body_done_iff[of b e, THEN conjunct1] unit_body_done_iff[of b e, THEN conjunct2]
    by (intro conjI) assumption+
qed

theorem C7_deferred_cleanup_order_witness:
  "deferred (Run ex_env ''svc'' ex_config) = [''A'', ''B'', ''C'']
   \<and> precedes (\<lambda>ev. ev = WgWait) is_CallDefer (Run ex_env ''svc'' ex_config)
   \<and> (\<exists>tr. interleave (unit_body ex_env ex_bootstrapped) ex_schedule
              (Run ex_env ''svc'' ex_config) Map.empty 0 = Some tr \<and> joined [] tr
            \<and> deferred (map snd tr) = [''A'', ''B'', ''C'']
            \<and> count_list (map snd tr) WgDone = 5
            \<and> filter (\<lambda>x. is_Panic (snd x)) tr = [])
   \<and> WgDone \<notin> set (butlast (unit_body ex_env ex_bootstrapped (JobUnit ''warm'')))
   \<and> WgDone \<notin> set (butlast (unit_body ex_env ex_bootstrapped (ServerUnit 6060)))
   \<and> WgDone \<in> set (unit_body ex_env ex_bootstrapped (JobUnit ''warm''))
   \<and> WgDone \<in> set (unit_body ex_env ex_bootstrapped (ServerUnit 6060))"
proof -
  have m: "map_of (jobs ex_bootstrapped) ''warm'' = Some \<lparr>name = ''warm'', interval = 10, fn = ''f1''\<rparr>"
    "map_of (servers ex_bootstrapped) 6060 = Some \<lparr>Addr = '':6060'', Handler = ''debugMux''\<rparr>"
    by (simp_all add: ex_bootstrapped_def)
  have x: "snd (runJob \<lparr>done_at = signal_at ex_env, ctx_attrs = []\<rparr> ''warm''
                 (interval \<lparr>name = ''warm'', interval = 10, fn = ''f1''\<rparr>)
                 (fn \<lparr>name = ''warm'', interval = 10, fn = ''f1''\<rparr>)
                 (started_at ex_env ''warm'') (job_runs ex_env ''warm'')) \<noteq> Running"
    "ListenAndServe_result ex_env 6060 = Some ErrServerClosed"
    by code_simp+
  have b: "bootstrap ex_env ex_config = Inr ex_bootstrapped"
    using ex_bootstrap[of "startup_result ex_env"] by simp
  have s: "signal_at ex_env = Some 100" by (simp add: ex_env_def)
  have i: "\<not> (\<exists>n j. u = JobUnit n \<and> map_of (jobs ex_bootstrapped) n = Some j \<and> interval j \<le> 0
                \<and> unit_body ex_env ex_bootstrapped u =
                    [WgDone, Panic ''non-positive interval for NewTicker''])" for u
    by (auto simp: ex_bootstrapped_def split: if_splits)
  have d: "deferFns ex_bootstrapped = [''A'', ''B'', ''C'']" by (simp add: ex_bootstrapped_def)
  obtain tr where tr: "interleave (unit_body ex_env ex_bootstrapped) ex_schedule
              (Run ex_env ''svc'' ex_config) Map.empty 0 = Some tr"
      "deferred (map snd tr) = [''A'', ''B'', ''C'']" "count_list (map snd tr) WgDone = 5"
    using ex_schedule_trace by blast
  have j: "\<forall>j\<in>snd ` set (jobs ex_bootstrapped). 0 < interval j"
    by (simp add: ex_bootstrapped_def)
  note C = C7_deferred_cleanup_order[OF b ex_startup s, of "''svc''"]
  from C j tr(1) have "\<forall>x\<in>set tr. \<not> is_Panic (snd x)" by blast
  then have "filter (\<lambda>x. is_Panic (snd x)) tr = []" by (simp add: filter_empty_conv)
  moreover from C m x have "WgDone \<in> set (unit_body ex_env ex_bootstrapped (JobUnit ''warm''))"
    "WgDone \<in> set (unit_body ex_env ex_bootstrapped (ServerUnit 6060))" by blast+
  ultimately show ?thesis using C d tr i
    by auto
qed

section \<open>Servers: launch order and the debug server\<close>

lemma sort_distinct_set:
  "distinct xs \<Longrightarrow> sort xs = sorted_list_of_set (set xs)"
  by (simp add: sorted_list_of_set_sort_remdups distinct_remdups_id)

text \<open>
  C9, as far as the code goes.  The goroutines of the servers are launched in ascending
  order of their ports, whatever the order of registration: the launch order is the
  sorted list of the set of registered ports, so two runs that registered the same
  set of ports launch in the same order.  The line ``starting server'' is written by
  each launched goroutine itself.
\<close>

theorem C9_server_launch_order:
  assumes "bootstrap e cfg = Inr b"
    and "startup (startup_result e) (startupJobs b) = Inr t"
  shows "launched_servers (Run e nm cfg) = sorted_list_of_set (fst ` set (servers b))
    \<and> sorted (launched_servers (Run e nm cfg))
    \<and> distinct (launched_servers (Run e nm cfg))
    \<and> (\<forall>e' nm' cfg' b' t'.
          bootstrap e' cfg' = Inr b' \<and> startup (startup_result e') (startupJobs b') = Inr t'
          \<and> fst ` set (servers b') = fst ` set (servers b) \<longrightarrow>
          launched_servers (Run e' nm' cfg') = launched_servers (Run e nm cfg))"
proof -
  have l: "launched_servers (Run e nm cfg) = sorted_list_of_set (fst ` set (servers b))"
    if "bootstrap e cfg = Inr b" "startup (startup_result e) (startupJobs b) = Inr t"
    for e nm cfg b t
    using launched_run(2)[OF that, of nm] sort_distinct_set[OF bootstrap_distinct(1)[OF that(1)]]
    by simp
  from l[OF assms] have "sorted (launched_servers (Run e nm cfg))"
    "distinct (launched_servers (Run e nm cfg))"
    by simp_all
  moreover have "launched_servers (Run e' nm' cfg') = launched_servers (Run e nm cfg)"
    if "bootstrap e' cfg' = Inr b'" "startup (startup_result e') (startupJobs b') = Inr t'"
      "fst ` set (servers b') = fst ` set (servers b)"
    for e' nm' cfg' b' t'
    using l[OF that(1,2)] l[OF assms] that(3) by simp
  ultimately show ?thesis using l[OF assms] by blast
qed

lemma ex_bootstrap_reordered:
  "bootstrap ex_env
     \<lparr>calls = [Call_AddServer \<lparr>Addr = '':9090'', Handler = ''admin''\<rparr>,
               Call_AddServer \<lparr>Addr = '':8080'', Handler = ''api''\<rparr>],
      returns = None\<rparr> =
   Inr \<lparr>servers = [(9090, \<lparr>Addr = '':9090'', Handler = ''admin''\<rparr>),
                    (8080, \<lparr>Addr = '':8080'', Handler = ''api''\<rparr>),
                    (6060, \<lparr>Addr = '':6060'', Handler = ''debugMux''\<rparr>)],
        jobs = [], startupJobs = [], deferFns = []\<rparr>"
  by (simp add: bootstrap_def ex_env_def new_Bootstrapper_def
     AddServer_def addDebugServer_def cmp_Or_def
     SplitHostPort_def LastIndexByte_def split_rest_def Atoi_def is_digit_def)

theorem C9_server_launch_order_witness:
  "launched_servers (Run ex_env ''svc'' ex_config) = [6060, 8080]
   \<and> launched_servers (Run ex_env ''svc''
        \<lparr>calls = [Call_AddServer \<lparr>Addr = '':9090'', Handler = ''admin''\<rparr>,
                  Call_AddServer \<lparr>Addr = '':8080'', Handler = ''api''\<rparr>],
         returns = None\<rparr>) = [6060, 8080, 9090]"
proof -
  have b: "bootstrap ex_env ex_config = Inr ex_bootstrapped"
    using ex_bootstrap[of "startup_result ex_env"] by simp
  have 1: "sorted_list_of_set (fst ` set (servers ex_bootstrapped)) = [6060, 8080]"
    by (simp add: ex_bootstrapped_def sorted_list_of_set_sort_remdups)
  have s: "startup (startup_result ex_env) [] = Inr []" by simp
  from C9_server_launch_order[OF b ex_startup, of "''svc''"] 1
  have "launched_servers (Run ex_env ''svc'' ex_config) = [6060, 8080]" by simp
  moreover from C9_server_launch_order[OF ex_bootstrap_reordered, of "[]" "''svc''"] s
  have "launched_servers (Run ex_env ''svc''
        \<lparr>calls = [Call_AddServer \<lparr>Addr = '':9090'', Handler = ''admin''\<rparr>,
                  Call_AddServer \<lparr>Addr = '':8080'', Handler = ''api''\<rparr>],
         returns = None\<rparr>) = [6060, 8080, 9090]"
    by (simp add: sorted_list_of_set_sort_remdups)
  ultimately show ?thesis by blast
qed

text \<open>
  The claim C9 as stated also orders the log lines.  In the example run the goroutines
  are launched for port 6060 and then for port 8080; in the interleaving in which the
  goroutine of port 8080 runs first, its ``starting server'' line is written before
  that of port 6060.
\<close>

theorem C9_startup_log_order_counterexample:
  "launched_servers (Run ex_env ''svc'' ex_config) = [6060, 8080]
   \<and> map_option start_logs
       (interleave (unit_body ex_env ex_bootstrapped) ex_schedule_late_log
          (Run ex_env ''svc'' ex_config) Map.empty 0) = Some [8080, 6060]
   \<and> \<not> sorted [8080, 6060 :: int]"
  by code_simp

lemma addDebugServer_debug_server:
  "addDebugServer v b = AddServer b (debug_server v)"
  by (simp add: addDebugServer_def debug_server_def)

lemma default_debug_port: "port_of (debug_server []) = Some 6060"
  by code_simp

text \<open>
  C10, as far as the code goes.  When the configuration function has returned without
  error, \<open>Run\<close> registers the debug server before any startup job is called.  Its
  address is a colon followed by the value of \<^verbatim>\<open>DEBUG_PORT\<close>, or by 6060 when
  the variable is empty or unset.  When \<^verbatim>\<open>AddServer\<close> can read no port number
  from that address, the run ends there with a fatal error.  When it reads the port
  \<open>p\<close> and a server registered by the configuration function holds \<open>p\<close>, the run ends
  with the duplicate-server error.  Otherwise the debug server joins the registry the
  run works on, next to every server of the configuration function: once the startup
  jobs have succeeded its goroutine is launched with the others in port order, as the
  function every server goroutine runs, and on the signal it gets its graceful
  shutdown, and the forceful close if that fails.
\<close>

theorem C10_debug_server_registered:
  assumes "configure new_Bootstrapper (calls cfg) = Inr b0"
    and "returns cfg = None"
  shows "(getenv_DEBUG_PORT e = [] \<longrightarrow> port_of (debug_server (getenv_DEBUG_PORT e)) = Some 6060)
    \<and> (port_of (debug_server (getenv_DEBUG_PORT e)) = None \<longrightarrow>
          (\<exists>msg er. Run e nm cfg =
             [SetDefault nm, Log LevelInfo [] ''starting service...'' []] @ slogFatal msg er))
    \<and> (\<forall>p. port_of (debug_server (getenv_DEBUG_PORT e)) = Some p \<longrightarrow>
          (map_of (servers b0) p \<noteq> None \<longrightarrow>
             Run e nm cfg =
               [SetDefault nm, Log LevelInfo [] ''starting service...'' [],
                Log LevelError [] ''server already added''
                  [(''error'', AnyValue (Failure ''server already added''))],
                Exit 1])
          \<and> (map_of (servers b0) p = None \<longrightarrow>
             bootstrap e cfg =
               Inr (b0\<lparr>servers := servers b0 @ [(p, debug_server (getenv_DEBUG_PORT e))]\<rparr>)
             \<and> (\<forall>t. startup (startup_result e) (startupJobs b0) = Inr t \<longrightarrow>
                   launched_servers (Run e nm cfg) = sort (map fst (servers b0) @ [p])
                   \<and> unit_body e
                        (b0\<lparr>servers := servers b0 @ [(p, debug_server (getenv_DEBUG_PORT e))]\<rparr>)
                        (ServerUnit p)
                       = server_unit e p (debug_server (getenv_DEBUG_PORT e))
                   \<and> (signal_at e \<noteq> None \<longrightarrow>
                         count_list (Run e nm cfg) (Shutdown p) = 1
                         \<and> (Shutdown_result e p \<noteq> None \<longrightarrow>
                               count_list (Run e nm cfg) (Close p) = 1)))))"
proof (intro conjI impI allI)
  assume "getenv_DEBUG_PORT e = []"
  with default_debug_port show "port_of (debug_server (getenv_DEBUG_PORT e)) = Some 6060" by simp
next
  assume n: "port_of (debug_server (getenv_DEBUG_PORT e)) = None"
  have "\<exists>t. AddServer b0 (debug_server (getenv_DEBUG_PORT e)) = Inl t"
  proof (cases "AddServer b0 (debug_server (getenv_DEBUG_PORT e))")
    case (Inl t)
    then show ?thesis by blast
  next
    case (Inr b)
    from AddServer_port[OF this] n show ?thesis by auto
  qed
  then obtain t where t: "AddServer b0 (debug_server (getenv_DEBUG_PORT e)) = Inl t" by blast
  from AddServer_fatal[OF t] obtain msg er where "t = slogFatal msg er" by blast
  with t have "Run e nm cfg =
      [SetDefault nm, Log LevelInfo [] ''starting service...'' []] @ slogFatal msg er"
    using assms by (simp add: Run_def bootstrap_def addDebugServer_debug_server)
  then show "\<exists>msg er. Run e nm cfg =
      [SetDefault nm, Log LevelInfo [] ''starting service...'' []] @ slogFatal msg er"
    by blast
next
  fix p
  assume p: "port_of (debug_server (getenv_DEBUG_PORT e)) = Some p"
    and d: "map_of (servers b0) p \<noteq> None"
  have "AddServer b0 (debug_server (getenv_DEBUG_PORT e)) =
          Inl [Log LevelError [] ''server already added''
                 [(''error'', AnyValue (Failure ''server already added''))], Exit 1]"
    using p d
    by (auto simp: AddServer_def port_of_def slogFatal_def slogFatalContext_def
             split: sum.splits prod.splits)
  then show "Run e nm cfg =
            [SetDefault nm, Log LevelInfo [] ''starting service...'' [],
             Log LevelError [] ''server already added''
               [(''error'', AnyValue (Failure ''server already added''))],
             Exit 1]"
    using assms(1,2) by (simp add: Run_def bootstrap_def addDebugServer_debug_server)
next
  fix p
  let ?b = "b0\<lparr>servers := servers b0 @ [(p, debug_server (getenv_DEBUG_PORT e))]\<rparr>"
  assume p: "port_of (debug_server (getenv_DEBUG_PORT e)) = Some p"
    and f: "map_of (servers b0) p = None"
  have a: "AddServer b0 (debug_server (getenv_DEBUG_PORT e)) = Inr ?b"
    using p f by (auto simp: AddServer_def port_of_def split: sum.splits prod.splits)
  then show b: "bootstrap e cfg = Inr ?b"
    using assms(1,2) by (simp add: bootstrap_def addDebugServer_debug_server)
  fix t assume "startup (startup_result e) (startupJobs b0) = Inr t"
  then have t: "startup (startup_result e) (startupJobs ?b) = Inr t" by simp
  show "launched_servers (Run e nm cfg) = sort (map fst (servers b0) @ [p])"
    using launched_run(2)[OF b t, of nm] by simp
  show "unit_body e ?b (ServerUnit p) = server_unit e p (debug_server (getenv_DEBUG_PORT e))"
    using f by (simp add: unit_body_def map_add_def)
  have m: "p \<in> fst ` set (servers ?b)" by simp
  {
    assume "signal_at e \<noteq> None"
    then obtain ts where s: "signal_at e = Some ts" by blast
    show "count_list (Run e nm cfg) (Shutdown p) = 1"
      using shutdown_every_server(1)[OF b t s m] .
    assume "Shutdown_result e p \<noteq> None"
    then show "count_list (Run e nm cfg) (Close p) = 1"
      using shutdown_every_server(2)[OF b t s m] by blast
  }
qed

lemma ex_configure:
  "configure new_Bootstrapper (calls ex_config) =
     Inr (ex_bootstrapped\<lparr>servers := [(8080, \<lparr>Addr = '':8080'', Handler = ''api''\<rparr>)]\<rparr>)"
  by (simp add: ex_config_def ex_bootstrapped_def new_Bootstrapper_def
     AddServer_def AddJob_def AddJobAndOnStartup_def Defer_def
     SplitHostPort_def LastIndexByte_def split_rest_def Atoi_def is_digit_def)

lemma ex_configure_debug_port_taken:
  "configure new_Bootstrapper (calls ex_config_debug_port_taken) =
     Inr \<lparr>servers = [(6060, \<lparr>Addr = ''localhost:6060'', Handler = ''admin''\<rparr>)],
          jobs = [(''warm'', \<lparr>name = ''warm'', interval = 10, fn = ''f1''\<rparr>)],
          startupJobs = [\<lparr>name = ''warm'', interval = 10, fn = ''f1''\<rparr>],
          deferFns = []\<rparr>"
  by (simp add: ex_config_debug_port_taken_def new_Bootstrapper_def
     AddServer_def AddJob_def AddJobAndOnStartup_def Defer_def
     SplitHostPort_def LastIndexByte_def split_rest_def Atoi_def is_digit_def)

theorem C10_debug_server_registered_witness:
  "launched_servers (Run ex_env ''svc'' ex_config) = [6060, 8080]
   \<and> count_list (Run ex_env ''svc'' ex_config) (Shutdown 6060) = 1
   \<and> Run ex_env ''svc'' ex_config_debug_port_taken =
       [SetDefault ''svc'', Log LevelInfo [] ''starting service...'' [],
        Log LevelError [] ''server already added''
          [(''error'', AnyValue (Failure ''server already added''))],
        Exit 1]"
proof -
  have r: "returns ex_config = None" "returns ex_config_debug_port_taken = None"
    by (simp_all add: ex_config_def ex_config_debug_port_taken_def)
  have g: "getenv_DEBUG_PORT ex_env = []" by (simp add: ex_env_def)
  have p: "port_of (debug_server (getenv_DEBUG_PORT ex_env)) = Some 6060"
    unfolding g by (rule default_debug_port)
  have s: "signal_at ex_env \<noteq> None" by (simp add: ex_env_def)
  let ?b0 = "ex_bootstrapped\<lparr>servers := [(8080, \<lparr>Addr = '':8080'', Handler = ''api''\<rparr>)]\<rparr>"
  have f: "map_of (servers ?b0) 6060 = None" by simp
  have t: "startup (startup_result ex_env) (startupJobs ?b0) =
     Inr [CallFn ''f1'' [(''job'', StringValue ''warm'')], RetFn ''f1'' None,
          CallFn ''f2'' [(''job'', StringValue ''load'')], RetFn ''f2'' None]"
    using ex_startup by simp
  from C10_debug_server_registered[OF ex_configure r(1), of ex_env "''svc''"] p f t s
  have 1: "launched_servers (Run ex_env ''svc'' ex_config) = sort (map fst (servers ?b0) @ [6060])"
    and 2: "count_list (Run ex_env ''svc'' ex_config) (Shutdown 6060) = 1"
    by blast+
  have d: "map_of (servers \<lparr>servers = [(6060, \<lparr>Addr = ''localhost:6060'', Handler = ''admin''\<rparr>)],
          jobs = [(''warm'', \<lparr>name = ''warm'', interval = 10, fn = ''f1''\<rparr>)],
          startupJobs = [\<lparr>name = ''warm'', interval = 10, fn = ''f1''\<rparr>],
          deferFns = []\<rparr>) 6060 \<noteq> None"
    by simp
  from C10_debug_server_registered[OF ex_configure_debug_port_taken r(2), of ex_env "''svc''"] p d
  have 3: "Run ex_env ''svc'' ex_config_debug_port_taken =
       [SetDefault ''svc'', Log LevelInfo [] ''starting service...'' [],
        Log LevelError [] ''server already added''
          [(''error'', AnyValue (Failure ''server already added''))],
        Exit 1]"
    by blast
  from 1 2 3 show ?thesis by simp
qed

text \<open>
  The claim C10 as stated speaks of every run.  With \<^verbatim>\<open>DEBUG_PORT=debug\<close> the
  example configuration is accepted, the debug server is not registered, and the run
  ends with the error of \<^verbatim>\<open>strconv.Atoi\<close> before a startup job or a server runs.
\<close>

theorem C10_malformed_debug_port_counterexample:
  "Run (ex_env\<lparr>getenv_DEBUG_PORT := ''debug''\<rparr>) ''svc'' ex_config =
     [SetDefault ''svc'', Log LevelInfo [] ''starting service...'' [],
      Log LevelError [] ''Failed to convert port to int''
        [(''error'', AnyValue (NumError ''Atoi'' ''debug'' ErrSyntax))],
      Exit 1]
   \<and> launched (Run (ex_env\<lparr>getenv_DEBUG_PORT := ''debug''\<rparr>) ''svc'' ex_config) = []
   \<and> called (Run (ex_env\<lparr>getenv_DEBUG_PORT := ''debug''\<rparr>) ''svc'' ex_config) = []"
  by code_simp

section \<open>The job loop: timing, the select, errors and intervals\<close>

lemma call_times_append: "call_times (xs @ ys) = call_times xs @ call_times ys"
  by (simp add: call_times_def map_filter_append)

lemma return_times_append: "return_times (xs @ ys) = return_times xs @ return_times ys"
  by (simp add: return_times_def map_filter_append)

lemma call_times_iteration: "call_times (iteration c f now i) = [now]"
  by (simp add: call_times_def iteration_def log_failure_def List.map_filter_simps
           split: option.splits)

lemma return_times_iteration: "return_times (iteration c f now i) = [now + dur i]"
  by (simp add: return_times_def iteration_def log_failure_def List.map_filter_simps
           split: option.splits)

lemma paced_mono: "paced d t ts \<Longrightarrow> t' \<le> t \<Longrightarrow> paced d t' ts"
  by (induction ts arbitrary: t t') auto






lemma selected_Tick_time:
  "fst (selected c tk now i) = CaseTick \<Longrightarrow>
   snd (selected c tk now i) = tick_ready_at tk now (now + dur i)"
  by (auto simp: selected_def select_done_tick_def split: option.splits if_splits)




lemma runJob_positive:
  "0 < d \<Longrightarrow>
   runJob ctx n d f now obs =
     runJob_loop (slogctx_With ctx [(''job'', StringValue n)]) \<lparr>created = now, period = d\<rparr> f now obs"
  by (simp add: runJob_def NewTicker_def)





text \<open>
  C3, as far as the code goes.  After the call of the job function has returned, the
  loop waits for the token or the ticker.  When the token is ready before the ticker,
  the loop returns and the job function is not called again.  When the ticker is ready
  before the token, or the token is never cancelled, the job function is called again
  at the tick.  When both are ready at the same time, the loop follows the choice of
  the runtime: it returns if the choice is the token and calls the job function once
  more if the choice is the ticker.
\<close>

theorem C3_select_race:
  "((\<exists>t. done_ready_at c (now + dur i) = Some t \<and> t < tick_ready_at tk now (now + dur i)) \<longrightarrow>
       runJob_loop c tk f now (i # obs) = (iteration c f now i, Exited))
   \<and> (done_ready_at c (now + dur i) = Some (tick_ready_at tk now (now + dur i)) \<longrightarrow>
       (pick i = CaseDone \<longrightarrow>
          runJob_loop c tk f now (i # obs) = (iteration c f now i, Exited))
       \<and> (pick i = CaseTick \<longrightarrow>
          runJob_loop c tk f now (i # obs) =
            (iteration c f now i @
               fst (runJob_loop c tk f (tick_ready_at tk now (now + dur i)) obs),
             snd (runJob_loop c tk f (tick_ready_at tk now (now + dur i)) obs))))
   \<and> ((done_ready_at c (now + dur i) = None
        \<or> (\<exists>t. done_ready_at c (now + dur i) = Some t \<and> tick_ready_at tk now (now + dur i) < t)) \<longrightarrow>
       runJob_loop c tk f now (i # obs) =
         (iteration c f now i @
            fst (runJob_loop c tk f (tick_ready_at tk now (now + dur i)) obs),
          snd (runJob_loop c tk f (tick_ready_at tk now (now + dur i)) obs)))
   \<and> call_times (iteration c f now i) = [now]"
proof -
  let ?tt = "tick_ready_at tk now (now + dur i)"
  have D: "fst (selected c tk now i) = CaseDone \<Longrightarrow>
       runJob_loop c tk f now (i # obs) = (iteration c f now i, Exited)"
    by (rule runJob_loop_Done)
  have T: "fst (selected c tk now i) = CaseTick \<Longrightarrow>
       runJob_loop c tk f now (i # obs) =
         (iteration c f now i @ fst (runJob_loop c tk f ?tt obs),
          snd (runJob_loop c tk f ?tt obs))"
    using runJob_loop_Tick[of c tk now i f obs] selected_Tick_time[of c tk now i] by simp
  have 1: "fst (selected c tk now i) = CaseDone"
    if "\<exists>t. done_ready_at c (now + dur i) = Some t \<and> t < ?tt"
    using that by (auto simp: selected_def select_done_tick_def)
  have 2: "fst (selected c tk now i) = pick i"
    if "done_ready_at c (now + dur i) = Some ?tt"
    using that by (simp add: selected_def select_done_tick_def)
  have 3: "fst (selected c tk now i) = CaseTick"
    if "done_ready_at c (now + dur i) = None
        \<or> (\<exists>t. done_ready_at c (now + dur i) = Some t \<and> ?tt < t)"
    using that by (auto simp: selected_def select_done_tick_def)
  from D T 1 2 3 call_times_iteration[of c f now i] show ?thesis
    by presburger
qed

theorem C3_select_race_witness:
  "runJob_loop ex_cancelled ex_ticker ''f'' 0 [\<lparr>dur = 3, err = None, pick = CaseTick\<rparr>] =
     ([(0, CallFn ''f'' [(''job'', StringValue ''beat'')]), (3, RetFn ''f'' None)], Exited)
   \<and> runJob_loop ex_cancelled ex_ticker ''f'' 0 [\<lparr>dur = 12, err = None, pick = CaseDone\<rparr>] =
     ([(0, CallFn ''f'' [(''job'', StringValue ''beat'')]), (12, RetFn ''f'' None)], Exited)
   \<and> runJob_loop (ex_cancelled\<lparr>done_at := None\<rparr>) ex_ticker ''f'' 0
        [\<lparr>dur = 3, err = None, pick = CaseDone\<rparr>] =
     ([(0, CallFn ''f'' [(''job'', StringValue ''beat'')]), (3, RetFn ''f'' None),
       (10, CallFn ''f'' [(''job'', StringValue ''beat'')])], Running)"
proof -
  have 1: "\<exists>t. done_ready_at ex_cancelled (0 + dur \<lparr>dur = 3, err = None, pick = CaseTick\<rparr>) = Some t
      \<and> t < tick_ready_at ex_ticker 0 (0 + dur \<lparr>dur = 3, err = None, pick = CaseTick\<rparr>)"
    by (simp add: done_ready_at_def tick_ready_at_def ticks_by_def ex_cancelled_def ex_ticker_def)
  have 2: "done_ready_at ex_cancelled (0 + dur \<lparr>dur = 12, err = None, pick = CaseDone\<rparr>) =
      Some (tick_ready_at ex_ticker 0 (0 + dur \<lparr>dur = 12, err = None, pick = CaseDone\<rparr>))"
    by (simp add: done_ready_at_def tick_ready_at_def ticks_by_def ex_cancelled_def ex_ticker_def)
  have 3: "done_ready_at (ex_cancelled\<lparr>done_at := None\<rparr>)
      (0 + dur \<lparr>dur = 3, err = None, pick = CaseDone\<rparr>) = None"
    by (simp add: done_ready_at_def)
  have t: "tick_ready_at ex_ticker 0 (0 + dur \<lparr>dur = 3, err = None, pick = CaseDone\<rparr>) = 10"
    by (simp add: tick_ready_at_def ticks_by_def ex_ticker_def)
  from C3_select_race[of ex_cancelled 0 "\<lparr>dur = 3, err = None, pick = CaseTick\<rparr>" ex_ticker "''f''" "[]"] 1
  have a: "runJob_loop ex_cancelled ex_ticker ''f'' 0 [\<lparr>dur = 3, err = None, pick = CaseTick\<rparr>] =
      (iteration ex_cancelled ''f'' 0 \<lparr>dur = 3, err = None, pick = CaseTick\<rparr>, Exited)"
    by blast
  from C3_select_race[of ex_cancelled 0 "\<lparr>dur = 12, err = None, pick = CaseDone\<rparr>" ex_ticker "''f''" "[]"] 2
  have b: "runJob_loop ex_cancelled ex_ticker ''f'' 0 [\<lparr>dur = 12, err = None, pick = CaseDone\<rparr>] =
      (iteration ex_cancelled ''f'' 0 \<lparr>dur = 12, err = None, pick = CaseDone\<rparr>, Exited)"
    by simp
  from C3_select_race[of "ex_cancelled\<lparr>done_at := None\<rparr>" 0
      "\<lparr>dur = 3, err = None, pick = CaseDone\<rparr>" ex_ticker "''f''" "[]"] 3
  have c: "runJob_loop (ex_cancelled\<lparr>done_at := None\<rparr>) ex_ticker ''f'' 0
        [\<lparr>dur = 3, err = None, pick = CaseDone\<rparr>] =
      (iteration (ex_cancelled\<lparr>done_at := None\<rparr>) ''f'' 0 \<lparr>dur = 3, err = None, pick = CaseDone\<rparr> @
         fst (runJob_loop (ex_cancelled\<lparr>done_at := None\<rparr>) ex_ticker ''f''
                (tick_ready_at ex_ticker 0 (0 + dur \<lparr>dur = 3, err = None, pick = CaseDone\<rparr>)) []),
       snd (runJob_loop (ex_cancelled\<lparr>done_at := None\<rparr>) ex_ticker ''f''
                (tick_ready_at ex_ticker 0 (0 + dur \<lparr>dur = 3, err = None, pick = CaseDone\<rparr>)) []))"
    by blast
  from a b c[unfolded t] show ?thesis
    by (simp add: iteration_def log_failure_def ex_cancelled_def)
qed

text \<open>
  The claim C3 as stated lets the cancellation win every tie.  With interval 10, the
  token cancelled at time 5 and a first call that returns at time 12, the token and the
  tick of time 10 are both ready when the loop reaches its \<^verbatim>\<open>select\<close>; when the
  runtime picks the ticker, the job function is called again.
\<close>

theorem C3_cancellation_wins_ties_counterexample:
  "done_ready_at \<lparr>done_at = Some 5, ctx_attrs = []\<rparr> 12 = Some 12
   \<and> tick_ready_at \<lparr>created = 0, period = 10\<rparr> 0 12 = 12
   \<and> runJob \<lparr>done_at = Some 5, ctx_attrs = []\<rparr> ''beat'' 10 ''f'' 0
        [\<lparr>dur = 12, err = None, pick = CaseTick\<rparr>] =
      ([(0, CallFn ''f'' [(''job'', StringValue ''beat'')]), (12, RetFn ''f'' None),
        (12, CallFn ''f'' [(''job'', StringValue ''beat'')])], Running)"
  by code_simp

lemma returned_errors_append:
  "returned_errors (xs @ ys) = returned_errors xs @ returned_errors ys"
  by (simp add: returned_errors_def map_filter_append)

lemma logs_append: "logs (xs @ ys) = logs xs @ logs ys"
  by (simp add: logs_def)

lemma logs_iteration:
  "logs (iteration c f now i) =
     map (failure_record (ctx_attrs c))
       (filter (\<lambda>x. ctx_Err c (fst x) = None) (returned_errors (iteration c f now i)))"
  by (auto simp: logs_def iteration_def log_failure_def returned_errors_def failure_record_def
        List.map_filter_simps split: option.splits)

lemma runJob_loop_logs:
  "logs (fst (runJob_loop c tk f now obs)) =
     map (failure_record (ctx_attrs c))
       (filter (\<lambda>x. ctx_Err c (fst x) = None) (returned_errors (fst (runJob_loop c tk f now obs))))"
proof (induction obs arbitrary: now)
  case Nil
  then show ?case by (simp add: logs_def returned_errors_def List.map_filter_simps)
next
  case (Cons i obs)
  show ?case
  proof (cases "fst (selected c tk now i)")
    case CaseDone
    then show ?thesis by (simp add: runJob_loop_Done logs_iteration)
  next
    case CaseTick
    then show ?thesis
      using Cons.IH[of "snd (selected c tk now i)"]
      by (simp add: runJob_loop_Tick logs_append returned_errors_append logs_iteration)
  qed
qed

lemma selected_without_error: "selected c tk now (i\<lparr>err := None\<rparr>) = selected c tk now i"
  by (simp add: selected_def)

lemma iteration_times_without_error:
  "call_times (iteration c f now (i\<lparr>err := None\<rparr>)) = call_times (iteration c f now i)"
  "return_times (iteration c f now (i\<lparr>err := None\<rparr>)) = return_times (iteration c f now i)"
  by (simp_all add: call_times_iteration return_times_iteration)

lemma runJob_loop_without_errors:
  "call_times (fst (runJob_loop c tk f now (without_errors obs))) =
     call_times (fst (runJob_loop c tk f now obs))
   \<and> return_times (fst (runJob_loop c tk f now (without_errors obs))) =
     return_times (fst (runJob_loop c tk f now obs))
   \<and> snd (runJob_loop c tk f now (without_errors obs)) = snd (runJob_loop c tk f now obs)"
proof (induction obs arbitrary: now)
  case Nil
  then show ?case by (simp add: without_errors_def)
next
  case (Cons i obs)
  have w: "without_errors (i # obs) = i\<lparr>err := None\<rparr> # without_errors obs"
    by (simp add: without_errors_def)
  show ?case
  proof (cases "fst (selected c tk now i)")
    case CaseDone
    then show ?thesis
      unfolding w
      by (simp add: runJob_loop_Done selected_without_error iteration_times_without_error)
  next
    case CaseTick
    then show ?thesis
      unfolding w using Cons.IH[of "snd (selected c tk now i)"]
      by (simp add: runJob_loop_Tick selected_without_error call_times_append
            return_times_append iteration_times_without_error)
  qed
qed

lemma runJob_loop_status: "snd (runJob_loop c tk f now obs) \<noteq> Panicked"
proof (induction obs arbitrary: now)
  case Nil
  then show ?case by simp
next
  case (Cons i obs)
  then show ?case
    by (cases "fst (selected c tk now i)") (simp_all add: runJob_loop_Done runJob_loop_Tick)
qed

text \<open>
  C5, as far as the code goes.  For a job with a positive interval: the log records
  of its loop are exactly one record per call that returned an error while the token
  was not yet cancelled, in the order of the returns, each at error level with the
  job's name and the error; an error returned when the token is cancelled is not
  logged, whatever the error is.  The times of the calls and returns and the way the
  loop ends are the same as if no call had returned an error, and they are the same
  whatever the calls of any other job return.  The loop never exits the process and
  does not panic.
\<close>

theorem C5_job_errors_logged:
  assumes "0 < d"
  shows "logs (fst (runJob ctx n d f now obs)) =
           map (failure_record (ctx_attrs ctx @ [(''job'', StringValue n)]))
             (filter (\<lambda>x. ctx_Err ctx (fst x) = None)
                (returned_errors (fst (runJob ctx n d f now obs))))
    \<and> call_times (fst (runJob ctx n d f now (without_errors obs))) =
        call_times (fst (runJob ctx n d f now obs))
    \<and> return_times (fst (runJob ctx n d f now (without_errors obs))) =
        return_times (fst (runJob ctx n d f now obs))
    \<and> snd (runJob ctx n d f now (without_errors obs)) = snd (runJob ctx n d f now obs)
    \<and> (\<forall>n' j other. n' \<noteq> n \<longrightarrow>
          job_unit (e\<lparr>job_runs := (job_runs e)(n := other)\<rparr>) n' j = job_unit e n' j)
    \<and> snd (runJob ctx n d f now obs) \<noteq> Panicked
    \<and> (\<forall>x\<in>set (fst (runJob ctx n d f now obs)). \<not> halts (snd x))"
proof -
  let ?c = "slogctx_With ctx [(''job'', StringValue n)]"
  have c: "ctx_Err ?c = ctx_Err ctx" "ctx_attrs ?c = ctx_attrs ctx @ [(''job'', StringValue n)]"
    by (simp_all add: slogctx_With_def ctx_Err_def fun_eq_iff)
  note r = runJob_positive[OF assms]
  have 1: "logs (fst (runJob ctx n d f now obs)) =
           map (failure_record (ctx_attrs ctx @ [(''job'', StringValue n)]))
             (filter (\<lambda>x. ctx_Err ctx (fst x) = None)
                (returned_errors (fst (runJob ctx n d f now obs))))"
    unfolding r using runJob_loop_logs[of ?c] by (simp add: c)
  have 2: "job_unit (e\<lparr>job_runs := (job_runs e)(n := other)\<rparr>) n' j = job_unit e n' j"
    if "n' \<noteq> n" for n' j other
    using that by (simp add: job_unit_def)
  have 3: "\<forall>x\<in>set (fst (runJob ctx n d f now obs)). \<not> halts (snd x)"
    unfolding r using runJob_loop_events by fastforce
  show ?thesis
    using 1 2 3 runJob_loop_without_errors[of ?c _ f now obs] runJob_loop_status[of ?c _ f now obs]
    unfolding r by blast
qed

theorem C5_job_errors_logged_witness:
  "logs (fst (runJob Background ''beat'' 10 ''f'' 0 ex_runs)) =
     [(9, Log LevelError [(''job'', StringValue ''beat'')] ''failed to run job''
            [(''error'', AnyValue (Failure ''boom''))])]
   \<and> call_times (fst (runJob Background ''beat'' 10 ''f'' 0 (without_errors ex_runs))) =
       [0, 10, 35, 40]
   \<and> snd (runJob Background ''beat'' 10 ''f'' 0 ex_runs) = Running"
proof -
  have r: "returned_errors (fst (runJob Background ''beat'' 10 ''f'' 0 ex_runs)) = [(9, Failure ''boom'')]"
    by code_simp
  have c: "call_times (fst (runJob Background ''beat'' 10 ''f'' 0 ex_runs)) = [0, 10, 35, 40]"
    by code_simp
  have s: "snd (runJob Background ''beat'' 10 ''f'' 0 ex_runs) = Running"
    by code_simp
  from C5_job_errors_logged[of 10 Background "''beat''" "''f''" 0 ex_runs ex_env] r c s
  show ?thesis
    by (simp add: failure_record_def Background_def ctx_Err_def)
qed

text \<open>
  The claim C5 as stated drops an error from the log only when the cancellation of the
  token caused it.  With the token cancelled at time 5, a call that fails at time 7
  for a reason of its own, not with the context's error, leaves no log record.
\<close>

theorem C5_error_after_cancel_counterexample:
  "runJob \<lparr>done_at = Some 5, ctx_attrs = []\<rparr> ''beat'' 10 ''f'' 0
     [\<lparr>dur = 7, err = Some (Failure ''database unreachable''), pick = CaseDone\<rparr>] =
     ([(0, CallFn ''f'' [(''job'', StringValue ''beat'')]),
       (7, RetFn ''f'' (Some (Failure ''database unreachable'')))], Exited)
   \<and> Failure ''database unreachable'' \<noteq> Canceled
   \<and> logs (fst (runJob \<lparr>done_at = Some 5, ctx_attrs = []\<rparr> ''beat'' 10 ''f'' 0
        [\<lparr>dur = 7, err = Some (Failure ''database unreachable''), pick = CaseDone\<rparr>])) = []"
  by code_simp

lemma AddServer_rejected:
  "(\<exists>t. AddServer b srv = Inl t) \<longleftrightarrow>
     (case port_of srv of None \<Rightarrow> True | Some p \<Rightarrow> map_of (servers b) p \<noteq> None)"
  by (auto simp: AddServer_def port_of_def split: sum.splits prod.splits option.splits)

lemma do_call_rejected: "(\<exists>t. do_call b c = Inl t) \<longleftrightarrow> rejected b c"
  by (cases c) (auto simp: AddServer_rejected AddJob_def AddJobAndOnStartup_def)

lemma runJob_nonpositive:
  "d \<le> 0 \<Longrightarrow>
   runJob ctx n d f now obs = ([(now, Panic ''non-positive interval for NewTicker'')], Panicked)"
  by (simp add: runJob_def NewTicker_def)

text \<open>
  C8, as far as the code goes.  Registration does not look at the interval:
  \<^verbatim>\<open>AddJob\<close> and \<^verbatim>\<open>AddJobAndOnStartup\<close> reject a name that is already
  registered and accept every other job, whatever its interval.  The registrations
  that end the process at registration time, before any startup job is called or any
  goroutine launched, are a server whose address yields no port number, a server
  whose port is taken and a job whose name is taken.  A job whose interval is not
  positive is launched with the others, and its goroutine panics when \<open>runJob\<close> creates
  the ticker: the deferred \<^verbatim>\<open>wg.Done()\<close> of the goroutine runs and the panic
  ends the process.  With a positive interval \<open>runJob\<close> does not panic.
\<close>

theorem C8_interval_not_checked_at_registration:
  "AddJob b n d f =
     (if map_of (jobs b) n \<noteq> None
        then Inl [Log LevelError [] ''job already added''
                    [(''error'', AnyValue (Failure ''job already added''))], Exit 1]
      else Inr (b\<lparr>jobs := jobs b @ [(n, \<lparr>name = n, interval = d, fn = f\<rparr>)]\<rparr>))
   \<and> ((\<exists>t. do_call b c = Inl t) \<longleftrightarrow> rejected b c)
   \<and> (bootstrap e cfg = Inl t \<longrightarrow>
         launched (Run e nm cfg) = [] \<and> called (Run e nm cfg) = [] \<and> last (Run e nm cfg) = Exit 1)
   \<and> (d \<le> 0 \<longrightarrow>
         runJob ctx n d f now obs =
           ([(now, Panic ''non-positive interval for NewTicker'')], Panicked))
   \<and> (0 < d \<longrightarrow> snd (runJob ctx n d f now obs) \<noteq> Panicked)
   \<and> (bootstrap e cfg = Inr bb \<and> startup (startup_result e) (startupJobs bb) = Inr t'
        \<and> map_of (jobs bb) n = Some j \<and> interval j \<le> 0 \<longrightarrow>
         JobUnit n \<in> set (launched (Run e nm cfg))
         \<and> unit_body e bb (JobUnit n) = [WgDone, Panic ''non-positive interval for NewTicker''])"
proof (intro conjI impI)
  show "AddJob b n d f =
     (if map_of (jobs b) n \<noteq> None
        then Inl [Log LevelError [] ''job already added''
                    [(''error'', AnyValue (Failure ''job already added''))], Exit 1]
      else Inr (b\<lparr>jobs := jobs b @ [(n, \<lparr>name = n, interval = d, fn = f\<rparr>)]\<rparr>))"
    by (simp add: AddJob_def slogFatal_def slogFatalContext_def)
  show "(\<exists>t. do_call b c = Inl t) \<longleftrightarrow> rejected b c" by (rule do_call_rejected)
next
  assume a: "bootstrap e cfg = Inl t"
  then obtain msg er where t: "t = slogFatal msg er" using bootstrap_fatal by blast
  have r: "Run e nm cfg = [SetDefault nm, Log LevelInfo [] ''starting service...'' []] @ t"
    using a by (simp add: Run_def)
  show "launched (Run e nm cfg) = []"
    unfolding r t slogFatal_def
    by (simp add: launched_append launched_Cons launched_Nil fatal_events)
  show "called (Run e nm cfg) = []"
    unfolding r t slogFatal_def
    by (simp add: called_append called_Cons called_Nil fatal_events)
  show "last (Run e nm cfg) = Exit 1"
    unfolding r t slogFatal_def using fatal_events(1,2) by simp
next
  assume "d \<le> 0"
  then show "runJob ctx n d f now obs =
           ([(now, Panic ''non-positive interval for NewTicker'')], Panicked)"
    by (rule runJob_nonpositive)
next
  assume "0 < d"
  then show "snd (runJob ctx n d f now obs) \<noteq> Panicked"
    by (simp add: runJob_positive runJob_loop_status)
next
  assume a: "bootstrap e cfg = Inr bb \<and> startup (startup_result e) (startupJobs bb) = Inr t'
        \<and> map_of (jobs bb) n = Some j \<and> interval j \<le> 0"
  then have "n \<in> fst ` set (jobs bb)" by (metis map_of_eq_None_iff option.distinct(1))
  then show "JobUnit n \<in> set (launched (Run e nm cfg))"
    using launched_run(1)[of e cfg bb t' nm] a by (simp add: range_keys_set)
  show "unit_body e bb (JobUnit n) = [WgDone, Panic ''non-positive interval for NewTicker'']"
    using a by (simp add: unit_body_def job_unit_def runJob_nonpositive unwind_def)
qed

lemma ex_bootstrap_zero_interval:
  "bootstrap ex_env ex_config_zero_interval =
     Inr \<lparr>servers = [(6060, \<lparr>Addr = '':6060'', Handler = ''debugMux''\<rparr>)],
          jobs = [(''tick'', \<lparr>name = ''tick'', interval = 0, fn = ''f''\<rparr>)],
          startupJobs = [\<lparr>name = ''tick'', interval = 0, fn = ''f''\<rparr>],
          deferFns = []\<rparr>"
  by (simp add: bootstrap_def ex_env_def ex_config_zero_interval_def new_Bootstrapper_def
     AddServer_def AddJob_def AddJobAndOnStartup_def addDebugServer_def cmp_Or_def
     SplitHostPort_def LastIndexByte_def split_rest_def Atoi_def is_digit_def)

theorem C8_interval_not_checked_at_registration_witness:
  "AddJob ex_registry ''tick'' 0 ''f'' =
     Inr (ex_registry\<lparr>jobs := jobs ex_registry @ [(''tick'', \<lparr>name = ''tick'', interval = 0, fn = ''f''\<rparr>)]\<rparr>)
   \<and> AddJob ex_registry ''beat'' 5 ''f'' =
     Inl [Log LevelError [] ''job already added''
            [(''error'', AnyValue (Failure ''job already added''))], Exit 1]
   \<and> runJob Background ''tick'' 0 ''f'' 0 [] =
       ([(0, Panic ''non-positive interval for NewTicker'')], Panicked)
   \<and> snd (runJob Background ''beat'' 5 ''f'' 0 []) \<noteq> Panicked
   \<and> JobUnit ''tick'' \<in> set (launched (Run ex_env ''svc'' ex_config_zero_interval))
   \<and> launched (Run ex_env ''svc'' ex_config_debug_port_taken) = []"
proof -
  let ?bb = "\<lparr>servers = [(6060, \<lparr>Addr = '':6060'', Handler = ''debugMux''\<rparr>)],
          jobs = [(''tick'', \<lparr>name = ''tick'', interval = 0, fn = ''f''\<rparr>)],
          startupJobs = [\<lparr>name = ''tick'', interval = 0, fn = ''f''\<rparr>],
          deferFns = []\<rparr>"
  have j: "map_of (jobs ex_registry) ''tick'' = None" "map_of (jobs ex_registry) ''beat'' \<noteq> None"
    by (simp_all add: ex_registry_def)
  have s: "bootstrap ex_env ex_config_zero_interval = Inr ?bb
      \<and> startup (startup_result ex_env) (startupJobs ?bb) =
          Inr [CallFn ''f'' [(''job'', StringValue ''tick'')], RetFn ''f'' None]
      \<and> map_of (jobs ?bb) ''tick'' = Some \<lparr>name = ''tick'', interval = 0, fn = ''f''\<rparr>
      \<and> interval \<lparr>name = ''tick'', interval = 0, fn = ''f''\<rparr> \<le> 0"
    using ex_bootstrap_zero_interval by (simp add: ex_env_def)
  have f: "bootstrap ex_env ex_config_debug_port_taken =
      Inl [Log LevelError [] ''server already added''
             [(''error'', AnyValue (Failure ''server already added''))], Exit 1]"
    by (simp add: bootstrap_def ex_env_def ex_config_debug_port_taken_def new_Bootstrapper_def
     AddServer_def AddJob_def AddJobAndOnStartup_def addDebugServer_def cmp_Or_def
     SplitHostPort_def LastIndexByte_def split_rest_def Atoi_def is_digit_def
     slogFatal_def slogFatalContext_def)
  from C8_interval_not_checked_at_registration
         [of ex_registry "''tick''" 0 "''f''" "Call_Defer ''A''" ex_env ex_config_debug_port_taken
             "[Log LevelError [] ''server already added''
                 [(''error'', AnyValue (Failure ''server already added''))], Exit 1]"
             "''svc''" Background 0 "[]"] j f
  have 1: "AddJob ex_registry ''tick'' 0 ''f'' =
     Inr (ex_registry\<lparr>jobs := jobs ex_registry @ [(''tick'', \<lparr>name = ''tick'', interval = 0, fn = ''f''\<rparr>)]\<rparr>)"
    and 2: "runJob Background ''tick'' 0 ''f'' 0 [] =
       ([(0, Panic ''non-positive interval for NewTicker'')], Panicked)"
    and 3: "launched (Run ex_env ''svc'' ex_config_debug_port_taken) = []"
    by simp_all
  from C8_interval_not_checked_at_registration
         [of ex_registry "''beat''" 5 "''f''" "Call_Defer ''A''" ex_env ex_config_zero_interval
             "[]" "''svc''" Background 0 "[]"] j
  have 4: "AddJob ex_registry ''beat'' 5 ''f'' =
     Inl [Log LevelError [] ''job already added''
            [(''error'', AnyValue (Failure ''job already added''))], Exit 1]"
    and 5: "snd (runJob Background ''beat'' 5 ''f'' 0 []) \<noteq> Panicked"
    by simp_all
  from C8_interval_not_checked_at_registration
         [of ex_registry "''tick''" 0 "''f''" "Call_Defer ''A''" ex_env ex_config_zero_interval
             "[]" "''svc''" Background 0 "[]" ?bb
             "[CallFn ''f'' [(''job'', StringValue ''tick'')], RetFn ''f'' None]"
             "\<lparr>name = ''tick'', interval = 0, fn = ''f''\<rparr>"] s
  have 6: "JobUnit ''tick'' \<in> set (launched (Run ex_env ''svc'' ex_config_zero_interval))"
    by blast
  from 1 2 3 4 5 6 show ?thesis by blast
qed

text \<open>
  The claim C8 as stated has a job with interval 0 rejected at registration.  Here it
  is registered as a startup job: the registration succeeds, the startup job is
  called, the server and the job are launched, and the goroutine of the job panics:
  its deferred \<^verbatim>\<open>wg.Done()\<close> runs and the panic ends the process.
\<close>

theorem C8_zero_interval_accepted_counterexample:
  "AddJob new_Bootstrapper ''tick'' 0 ''f'' =
     Inr \<lparr>servers = [], jobs = [(''tick'', \<lparr>name = ''tick'', interval = 0, fn = ''f''\<rparr>)],
          startupJobs = [], deferFns = []\<rparr>
   \<and> take 8 (Run ex_env ''svc'' ex_config_zero_interval) =
       [SetDefault ''svc'', Log LevelInfo [] ''starting service...'' [],
        CallFn ''f'' [(''job'', StringValue ''tick'')], RetFn ''f'' None,
        WgAdd, Go (ServerUnit 6060), WgAdd, Go (JobUnit ''tick'')]
   \<and> job_unit ex_env ''tick'' \<lparr>name = ''tick'', interval = 0, fn = ''f''\<rparr> =
       [WgDone, Panic ''non-positive interval for NewTicker'']"
  by code_simp

end
